theory Spec2Isabelle
  imports Main "HOL-Library.Word"
begin

unbundle bit_operations_syntax

section \<open>Machine model\<close>

text \<open>
  The allocator of \<^verbatim>\<open>src/osmem.c\<close> manipulates block headers through raw pointers.
  Sizes (\<^verbatim>\<open>size_t\<close>) and pointers are 64-bit words, so every addition, subtraction and
  \<^verbatim>\<open>ALIGN8\<close> wraps around as in C; the null pointer is the word 0.
\<close>

type_synonym size_t = "64 word"
type_synonym addr = "64 word"

text \<open>
  Modelled from the spec: the declaration of \<^verbatim>\<open>struct block_meta\<close> and of the status
  constants lives in a header that is not part of the sources. The spec gives the three fields
  and the three status values. The size of the struct, \<^verbatim>\<open>sizeof(struct block_meta)\<close>, is not
  known and is the parameter \<open>bm\<close> of every function below.
\<close>

datatype status = STATUS_FREE | STATUS_ALLOC | STATUS_MAPPED

record block_meta =
  size_b :: size_t
  status_b :: status
  next_b :: addr

text \<open>
  The kernel is an external collaborator. Every public operation performs at most one call of
  \<^verbatim>\<open>sbrk\<close>, one of \<^verbatim>\<open>mmap\<close> and one of \<^verbatim>\<open>munmap\<close>, so the answers of the kernel are a parameter
  of the operation, and the calls made are appended to a log kept in the state. The failure
  sentinels \<^verbatim>\<open>(void *) -1\<close> and \<^verbatim>\<open>MAP_FAILED\<close> are the word \<open>- 1\<close>.
\<close>

datatype syscall = Sbrk size_t | Mmap size_t | Munmap addr size_t

record kernel =
  sbrk_ret :: addr
  mmap_ret :: addr
  munmap_ret :: int
  pagesize :: size_t

text \<open>
  The macro \<^verbatim>\<open>DIE\<close> (from a header that is not part of the sources) ends the process with a
  message. Reading or writing through the null pointer, or through a pointer to memory that
  holds no block header, is an error of its own; it carries the name of the pointer variable
  of the source that was dereferenced.
\<close>

datatype error = Die string | NullDeref string | WildDeref string

text \<open>
  The state: the two globals, the block headers found in memory (a store from addresses to
  headers), the payload bytes, and the log of system calls. A result is \<open>None\<close> when a loop
  does not terminate, \<open>Some (Inl e)\<close> when the process dies, \<open>Some (Inr x)\<close> otherwise.
\<close>

record arena =
  mem_begin :: addr
  mem_end :: addr
  heap :: "addr \<Rightarrow> block_meta option"
  bytes :: "addr \<Rightarrow> 8 word"
  calls :: "syscall list"

type_synonym 'a res = "(error + 'a) option"

text \<open>
  Sequencing of results: an error or a non-terminating step ends the computation.
\<close>

definition bind_res :: "'a res \<Rightarrow> ('a \<Rightarrow> 'b res) \<Rightarrow> 'b res" where
  "bind_res m f = (case m of None \<Rightarrow> None | Some (Inl e) \<Rightarrow> Some (Inl e) | Some (Inr x) \<Rightarrow> f x)"

text \<open>
  \<open>load v s p\<close> reads the header at \<open>p\<close> through the pointer variable \<open>v\<close>; \<open>store\<close>
  writes a header that was read before; \<open>init_block\<close> writes all three fields of a header
  into memory that held none (the source assigns \<^verbatim>\<open>status\<close>, \<^verbatim>\<open>size\<close> and \<^verbatim>\<open>next\<close> one after
  the other).
\<close>

definition load :: "string \<Rightarrow> arena \<Rightarrow> addr \<Rightarrow> error + block_meta" where
  "load v s p =
     (if p = 0 then Inl (NullDeref v)
      else case heap s p of None \<Rightarrow> Inl (WildDeref v) | Some b \<Rightarrow> Inr b)"

definition store :: "arena \<Rightarrow> addr \<Rightarrow> block_meta \<Rightarrow> arena" where
  "store s p b = s\<lparr>heap := (heap s)(p \<mapsto> b)\<rparr>"

definition init_block :: "string \<Rightarrow> arena \<Rightarrow> addr \<Rightarrow> block_meta \<Rightarrow> arena res" where
  "init_block v s p b = (if p = 0 then Some (Inl (NullDeref v)) else Some (Inr (store s p b)))"

text \<open>
  \<^verbatim>\<open>memset\<close> and \<^verbatim>\<open>memcpy\<close> write the bytes \<open>p, ..., p + n - 1\<close>. A header that overlaps the
  written range no longer holds what the allocator wrote there: it leaves the store.
\<close>

definition clobber ::
    "size_t \<Rightarrow> addr \<Rightarrow> size_t \<Rightarrow> (addr \<Rightarrow> block_meta option) \<Rightarrow> addr \<Rightarrow> block_meta option" where
  "clobber bm p n h = (\<lambda>a. if n \<noteq> 0 \<and> (a - p < n \<or> p - a < bm) then None else h a)"

definition memset :: "size_t \<Rightarrow> addr \<Rightarrow> 8 word \<Rightarrow> size_t \<Rightarrow> arena \<Rightarrow> arena res" where
  "memset bm p c n s =
     (if n = 0 then Some (Inr s)
      else if p = 0 then Some (Inl (NullDeref ''memset''))
      else Some (Inr (s\<lparr>bytes := (\<lambda>a. if a - p < n then c else bytes s a),
                        heap := clobber bm p n (heap s)\<rparr>)))"

definition memcpy :: "size_t \<Rightarrow> addr \<Rightarrow> addr \<Rightarrow> size_t \<Rightarrow> arena \<Rightarrow> arena res" where
  "memcpy bm dst src n s =
     (if n = 0 then Some (Inr s)
      else if dst = 0 \<or> src = 0 then Some (Inl (NullDeref ''memcpy''))
      else Some (Inr (s\<lparr>bytes := (\<lambda>a. if a - dst < n then bytes s (src + (a - dst))
                                       else bytes s a),
                        heap := clobber bm dst n (heap s)\<rparr>)))"

section \<open>Constants and macros\<close>

text \<open>
  Lines 6 to 8. \<^verbatim>\<open>ALIGN8\<close> is computed on \<^verbatim>\<open>size_t\<close>: the addition wraps around, and \<^verbatim>\<open>~7\<close> is
  the word whose three low bits are clear.
\<close>

definition MMAP_THRESHOLD :: size_t where
  "MMAP_THRESHOLD = 128 * 1024"

definition ALIGN8 :: "size_t \<Rightarrow> size_t" where
  "ALIGN8 sz = (sz + 7) AND NOT 7"

definition SIZEOF_STRUCT_BLOCK_META :: "size_t \<Rightarrow> size_t" where
  "SIZEOF_STRUCT_BLOCK_META bm = ALIGN8 bm"

text \<open>
  The round-up of the specification, \<^verbatim>\<open>align8\<close>: the smallest multiple of 8 that is not less
  than \<open>n\<close>, over the natural numbers. It follows the words of the specification, not the
  source, and is what \<open>ALIGN8\<close> is compared with.
\<close>

definition align8 :: "nat \<Rightarrow> nat" where
  "align8 n = ((n + 7) div 8) * 8"

section \<open>Free-list operations\<close>

text \<open>
  Lines 16 to 38, \<^verbatim>\<open>split_block\<close>. The header of \<^verbatim>\<open>block\<close> is read again after the write to
  \<^verbatim>\<open>second_part\<close>, as the source does.
\<close>

definition split_block :: "size_t \<Rightarrow> addr \<Rightarrow> size_t \<Rightarrow> arena \<Rightarrow> arena res" where
  "split_block bm block sz s =
     (let new_size_aligned = ALIGN8 (sz + SIZEOF_STRUCT_BLOCK_META bm) in
      case load ''block'' s block of Inl e \<Rightarrow> Some (Inl e) | Inr b \<Rightarrow>
        let temp = next_b b;
            second_part = block + new_size_aligned
        in bind_res (init_block ''second_part'' s second_part
                       \<lparr>size_b = ALIGN8 (size_b b - new_size_aligned),
                        status_b = STATUS_FREE, next_b = temp\<rparr>) (\<lambda>s1.
           case load ''block'' s1 block of Inl e \<Rightarrow> Some (Inl e) | Inr b1 \<Rightarrow>
             let s2 = store s1 block (b1\<lparr>next_b := second_part, size_b := ALIGN8 sz\<rparr>)
             in Some (Inr (if mem_end s2 = block then s2\<lparr>mem_end := second_part\<rparr> else s2))))"

text \<open>
  Lines 41 to 74, \<^verbatim>\<open>coalesce_blocks\<close>: the merging loop (lines 51 to 66; the test of line 52
  reads \<^verbatim>\<open>curr->next->status\<close> only when \<^verbatim>\<open>curr\<close> is free), the walk to the last block
  (lines 69 to 71) and the assignment to \<^verbatim>\<open>mem_end\<close>. The loop variable \<^verbatim>\<open>curr\<close> is written
  \<open>cur\<close>.
\<close>

partial_function (option) coalesce_loop :: "size_t \<Rightarrow> arena \<Rightarrow> addr \<Rightarrow> arena res" where
  "coalesce_loop bm s cur =
     (if cur = 0 then Some (Inr s)
      else case load ''curr'' s cur of Inl e \<Rightarrow> Some (Inl e) | Inr c \<Rightarrow>
        if next_b c = 0 then Some (Inr s)
        else if status_b c = STATUS_FREE then
          (case load ''curr->next'' s (next_b c) of Inl e \<Rightarrow> Some (Inl e) | Inr temp \<Rightarrow>
            if status_b temp = STATUS_FREE then
              coalesce_loop bm
                (store s cur (c\<lparr>next_b := next_b temp,
                   size_b := ALIGN8 (size_b c + (size_b temp + SIZEOF_STRUCT_BLOCK_META bm))\<rparr>))
                cur
            else coalesce_loop bm s (next_b c))
        else coalesce_loop bm s (next_b c))"

partial_function (option) last_loop :: "arena \<Rightarrow> addr \<Rightarrow> addr res" where
  "last_loop s cur =
     (if cur = 0 then Some (Inr cur)
      else case load ''curr'' s cur of Inl e \<Rightarrow> Some (Inl e) | Inr c \<Rightarrow>
        if next_b c = 0 then Some (Inr cur) else last_loop s (next_b c))"

definition coalesce_blocks :: "size_t \<Rightarrow> arena \<Rightarrow> arena res" where
  "coalesce_blocks bm s =
     bind_res (coalesce_loop bm s (mem_begin s)) (\<lambda>s1.
     bind_res (last_loop s1 (mem_begin s1)) (\<lambda>cur.
       Some (Inr (s1\<lparr>mem_end := cur\<rparr>))))"

text \<open>
  Lines 77 to 122, \<^verbatim>\<open>find_best_block\<close>. \<open>best_loop\<close> is the loop of lines 96 to 112 and
  returns \<^verbatim>\<open>best\<close> and \<^verbatim>\<open>can_be_used\<close>; the result of \<open>find_best_block\<close> is the pointer
  returned (null when nothing was found) and the new state.
\<close>

partial_function (option) best_loop ::
    "arena \<Rightarrow> size_t \<Rightarrow> addr \<Rightarrow> addr \<Rightarrow> size_t \<Rightarrow> size_t \<Rightarrow> (addr \<times> size_t) res" where
  "best_loop s sz cur best best_fit_size can_be_used =
     (if cur = 0 then Some (Inr (best, can_be_used))
      else case load ''curr'' s cur of Inl e \<Rightarrow> Some (Inl e) | Inr c \<Rightarrow>
        if status_b c = STATUS_FREE \<and> sz \<le> size_b c \<and>
           (size_b c < best_fit_size \<or> can_be_used = 0)
        then best_loop s sz (next_b c) cur (size_b c) 1
        else best_loop s sz (next_b c) best best_fit_size can_be_used)"

definition find_best_block :: "size_t \<Rightarrow> size_t \<Rightarrow> arena \<Rightarrow> (addr \<times> arena) res" where
  "find_best_block bm sz s =
     (if mem_begin s = 0 then Some (Inr (0, s))
      else bind_res (coalesce_blocks bm s) (\<lambda>s1.
        let cur = mem_begin s1 in
        case load ''curr'' s1 cur of Inl e \<Rightarrow> Some (Inl e) | Inr c \<Rightarrow>
          let best_fit_size = size_b c;
              best = cur;
              can_be_used = (if status_b c = STATUS_FREE then 1 else 0)
          in bind_res (best_loop s1 sz cur best best_fit_size can_be_used)
               (\<lambda>(best, can_be_used).
                  let size_aligned = ALIGN8 (sz + SIZEOF_STRUCT_BLOCK_META bm) in
                  bind_res
                    (if can_be_used = 1 then
                       (case load ''best'' s1 best of Inl e \<Rightarrow> Some (Inl e) | Inr b \<Rightarrow>
                          if size_aligned < size_b b then split_block bm best sz s1
                          else Some (Inr s1))
                     else Some (Inr s1))
                    (\<lambda>s2. Some (Inr (if can_be_used = 1 then best else 0, s2))))))"

section \<open>Primitive provisioning\<close>

text \<open>
  Lines 126 to 157, \<^verbatim>\<open>create_block\<close>, and lines 161 to 176, \<^verbatim>\<open>prealloc\<close>. The payload of a
  block is \<^verbatim>\<open>new_block + 1\<close>, that is the address of the block plus \<open>bm\<close>.
\<close>

definition create_block ::
    "size_t \<Rightarrow> size_t \<Rightarrow> size_t \<Rightarrow> kernel \<Rightarrow> arena \<Rightarrow> (addr \<times> arena) res" where
  "create_block bm sz treshold k s =
     (if ALIGN8 sz < treshold then
        let s1 = s\<lparr>calls := calls s @ [Sbrk (ALIGN8 (sz + SIZEOF_STRUCT_BLOCK_META bm))]\<rparr>;
            new_block = sbrk_ret k
        in if new_block = - 1 then Some (Inl (Die ''sbrk failed''))
           else bind_res (init_block ''new_block'' s1 new_block
                            \<lparr>size_b = ALIGN8 sz, status_b = STATUS_ALLOC, next_b = 0\<rparr>)
                  (\<lambda>s2. Some (Inr (new_block, s2)))
      else
        let s1 = s\<lparr>calls := calls s @ [Mmap (ALIGN8 (sz + SIZEOF_STRUCT_BLOCK_META bm))]\<rparr>;
            new_block = mmap_ret k
        in if new_block = - 1 then Some (Inl (Die ''map failed''))
           else bind_res (init_block ''new_block'' s1 new_block
                            \<lparr>size_b = ALIGN8 sz, status_b = STATUS_MAPPED, next_b = 0\<rparr>)
                  (\<lambda>s2. Some (Inr (new_block, s2))))"

definition prealloc :: "size_t \<Rightarrow> kernel \<Rightarrow> arena \<Rightarrow> (addr \<times> arena) res" where
  "prealloc bm k s =
     bind_res (create_block bm (MMAP_THRESHOLD - SIZEOF_STRUCT_BLOCK_META bm) MMAP_THRESHOLD k s)
       (\<lambda>(new_block, s1).
          if new_block = 0 then Some (Inr (0, s1))
          else let s2 = s1\<lparr>mem_begin := new_block\<rparr>;
                   s3 = s2\<lparr>mem_end := mem_begin s2\<rparr>
               in Some (Inr (new_block + bm, s3)))"

section \<open>Allocation front-ends\<close>

text \<open>
  Lines 222 to 239 of \<^verbatim>\<open>os_malloc_aux\<close>: preallocation on an empty list, otherwise a fresh
  block, linked behind \<^verbatim>\<open>mem_end\<close> when it came from the heap.
\<close>

definition os_malloc_fresh ::
    "size_t \<Rightarrow> size_t \<Rightarrow> size_t \<Rightarrow> kernel \<Rightarrow> arena \<Rightarrow> (addr \<times> arena) res" where
  "os_malloc_fresh bm size_aligned treshold k s =
     (if size_aligned < treshold - SIZEOF_STRUCT_BLOCK_META bm \<and> mem_begin s = 0
      then prealloc bm k s
      else bind_res (create_block bm size_aligned
                       (treshold - SIZEOF_STRUCT_BLOCK_META bm) k s) (\<lambda>(new_block, s1).
             if new_block = 0 then Some (Inr (0, s1))
             else case load ''new_block'' s1 new_block of Inl e \<Rightarrow> Some (Inl e) | Inr nb \<Rightarrow>
               if status_b nb = STATUS_ALLOC then
                 (case load ''mem_end'' s1 (mem_end s1) of Inl e \<Rightarrow> Some (Inl e) | Inr e \<Rightarrow>
                    let s2 = store s1 (mem_end s1) (e\<lparr>next_b := new_block\<rparr>)
                    in Some (Inr (new_block + bm, s2\<lparr>mem_end := new_block\<rparr>)))
               else Some (Inr (new_block + bm, s1))))"

text \<open>
  Lines 206 to 239 of \<^verbatim>\<open>os_malloc_aux\<close>: what is tried once the best-fit search found
  nothing (or was not run): last-block expansion first, then \<open>os_malloc_fresh\<close>.
\<close>

definition os_malloc_rest ::
    "size_t \<Rightarrow> size_t \<Rightarrow> size_t \<Rightarrow> kernel \<Rightarrow> arena \<Rightarrow> (addr \<times> arena) res" where
  "os_malloc_rest bm size_aligned treshold k s =
     (if mem_end s = 0 then os_malloc_fresh bm size_aligned treshold k s
      else case load ''mem_end'' s (mem_end s) of Inl e \<Rightarrow> Some (Inl e) | Inr e \<Rightarrow>
        if status_b e = STATUS_FREE \<and> size_b e < size_aligned \<and>
           size_aligned < treshold - SIZEOF_STRUCT_BLOCK_META bm
        then
          let s1 = s\<lparr>calls := calls s @ [Sbrk (ALIGN8 (size_aligned - size_b e))]\<rparr> in
          if sbrk_ret k = - 1 then Some (Inl (Die ''sbrk failed''))
          else Some (Inr (mem_end s1 + bm,
                 store s1 (mem_end s1)
                   (e\<lparr>size_b := ALIGN8 size_aligned, status_b := STATUS_ALLOC\<rparr>)))
        else os_malloc_fresh bm size_aligned treshold k s)"

text \<open>
  Lines 182 to 240, \<^verbatim>\<open>os_malloc_aux\<close>: the early exit, the best-fit search, and the rest.
\<close>

definition os_malloc_aux ::
    "size_t \<Rightarrow> size_t \<Rightarrow> size_t \<Rightarrow> kernel \<Rightarrow> arena \<Rightarrow> (addr \<times> arena) res" where
  "os_malloc_aux bm sz treshold k s =
     (if sz \<le> 0 then Some (Inr (0, s))
      else
        let size_aligned = ALIGN8 sz in
        if mem_begin s \<noteq> 0 \<and> size_aligned < treshold then
          bind_res (find_best_block bm size_aligned s) (\<lambda>(new_block, s1).
            if new_block \<noteq> 0 then
              (case load ''new_block'' s1 new_block of Inl e \<Rightarrow> Some (Inl e) | Inr nb \<Rightarrow>
                 Some (Inr (new_block + bm,
                   store s1 new_block (nb\<lparr>status_b := STATUS_ALLOC\<rparr>))))
            else os_malloc_rest bm size_aligned treshold k s1)
        else os_malloc_rest bm size_aligned treshold k s)"

text \<open>
  Lines 244 to 248, \<^verbatim>\<open>os_malloc\<close>; lines 254 to 266, \<^verbatim>\<open>os_calloc\<close> (the product
  \<^verbatim>\<open>nmemb * size\<close> is computed on \<^verbatim>\<open>size_t\<close>); lines 393 to 415, \<^verbatim>\<open>os_free\<close>. After a
  successful \<^verbatim>\<open>munmap\<close> the header is no longer in memory.
\<close>

definition os_malloc :: "size_t \<Rightarrow> size_t \<Rightarrow> kernel \<Rightarrow> arena \<Rightarrow> (addr \<times> arena) res" where
  "os_malloc bm sz k s = os_malloc_aux bm sz MMAP_THRESHOLD k s"

definition os_calloc ::
    "size_t \<Rightarrow> size_t \<Rightarrow> size_t \<Rightarrow> kernel \<Rightarrow> arena \<Rightarrow> (addr \<times> arena) res" where
  "os_calloc bm nmemb sz k s =
     (let page_size = pagesize k in
      bind_res (os_malloc_aux bm (nmemb * sz) page_size k s) (\<lambda>(out, s1).
      bind_res (memset bm out 0 (nmemb * sz) s1) (\<lambda>s2.
        Some (Inr (out, s2)))))"

definition os_free :: "size_t \<Rightarrow> addr \<Rightarrow> kernel \<Rightarrow> arena \<Rightarrow> arena res" where
  "os_free bm ptr k s =
     (if ptr = 0 then Some (Inr s)
      else
        let to_free_block = ptr - bm in
        case load ''to_free_block'' s to_free_block of Inl e \<Rightarrow> Some (Inl e) | Inr b \<Rightarrow>
          if status_b b = STATUS_ALLOC then
            Some (Inr (store s to_free_block (b\<lparr>status_b := STATUS_FREE\<rparr>)))
          else if status_b b = STATUS_MAPPED then
            let s1 = store s to_free_block (b\<lparr>status_b := STATUS_FREE\<rparr>);
                s2 = s1\<lparr>calls := calls s1 @
                        [Munmap to_free_block (size_b b + SIZEOF_STRUCT_BLOCK_META bm)]\<rparr>
            in if munmap_ret k = - 1 then Some (Inl (Die ''munmap fail''))
               else Some (Inr (s2\<lparr>heap := (heap s2)(to_free_block := None)\<rparr>))
          else Some (Inr s))"

section \<open>Resize\<close>

text \<open>
  Lines 269 to 390, \<^verbatim>\<open>os_realloc\<close>. \<open>realloc_loop\<close> is the loop of lines 318 to 338 with its
  two \<^verbatim>\<open>break\<close>s.
\<close>

partial_function (option) realloc_loop ::
    "size_t \<Rightarrow> arena \<Rightarrow> addr \<Rightarrow> size_t \<Rightarrow> arena res" where
  "realloc_loop bm s block new_size_aligned =
     (case load ''block'' s block of Inl e \<Rightarrow> Some (Inl e) | Inr b \<Rightarrow>
       if next_b b = 0 then Some (Inr s)
       else
         (case load ''block->next'' s (next_b b) of Inl e \<Rightarrow> Some (Inl e) | Inr temp \<Rightarrow>
           if status_b temp \<noteq> STATUS_FREE then Some (Inr s)
           else if MMAP_THRESHOLD <
                   ALIGN8 (size_b b + size_b temp + SIZEOF_STRUCT_BLOCK_META bm)
           then Some (Inr s)
           else
             let new_size = ALIGN8 (size_b b + (size_b temp + SIZEOF_STRUCT_BLOCK_META bm));
                 s1 = store s block (b\<lparr>next_b := next_b temp, size_b := new_size\<rparr>)
             in if new_size_aligned \<le> ALIGN8 (new_size + SIZEOF_STRUCT_BLOCK_META bm)
                then Some (Inr s1)
                else realloc_loop bm s1 block new_size_aligned))"

text \<open>
  Lines 377 to 389 of \<^verbatim>\<open>os_realloc\<close>: a new block, the old contents copied, the old block
  released.
\<close>

definition os_realloc_move ::
    "size_t \<Rightarrow> addr \<Rightarrow> size_t \<Rightarrow> size_t \<Rightarrow> kernel \<Rightarrow> arena \<Rightarrow> (addr \<times> arena) res" where
  "os_realloc_move bm ptr sz old_size_aligned k s =
     bind_res (os_malloc bm sz k s) (\<lambda>(newptr, s1).
       if newptr = 0 then Some (Inr (0, s1))
       else bind_res (memcpy bm newptr ptr old_size_aligned s1) (\<lambda>s2.
         if newptr \<noteq> ptr
         then bind_res (os_free bm ptr k s2) (\<lambda>s3. Some (Inr (newptr, s3)))
         else Some (Inr (newptr, s2))))"

definition os_realloc ::
    "size_t \<Rightarrow> addr \<Rightarrow> size_t \<Rightarrow> kernel \<Rightarrow> arena \<Rightarrow> (addr \<times> arena) res" where
  "os_realloc bm ptr sz k s =
     (if ptr = 0 then os_malloc bm sz k s
      else if sz = 0 then bind_res (os_free bm ptr k s) (\<lambda>s1. Some (Inr (0, s1)))
      else
        let block = ptr - bm in
        case load ''block'' s block of Inl e \<Rightarrow> Some (Inl e) | Inr b \<Rightarrow>
          let new_size_aligned = ALIGN8 (sz + SIZEOF_STRUCT_BLOCK_META bm);
              old_size_aligned = ALIGN8 (size_b b + SIZEOF_STRUCT_BLOCK_META bm)
          in
          if status_b b = STATUS_FREE then Some (Inr (0, s))
          else if block = mem_end s \<and> old_size_aligned < new_size_aligned \<and>
                  ALIGN8 sz < MMAP_THRESHOLD - SIZEOF_STRUCT_BLOCK_META bm
          then
            let s1 = s\<lparr>calls := calls s @ [Sbrk (ALIGN8 (sz - size_b b))]\<rparr> in
            if sbrk_ret k = - 1 then Some (Inl (Die ''sbrk failed''))
            else Some (Inr (mem_end s1 + bm,
                   store s1 (mem_end s1) (b\<lparr>size_b := ALIGN8 sz, status_b := STATUS_ALLOC\<rparr>)))
          else
            bind_res (if old_size_aligned < new_size_aligned \<and> new_size_aligned < MMAP_THRESHOLD
                      then realloc_loop bm s block new_size_aligned
                      else Some (Inr s)) (\<lambda>s1.
              case load ''block'' s1 block of Inl e \<Rightarrow> Some (Inl e) | Inr b1 \<Rightarrow>
                let old_size_aligned = ALIGN8 (size_b b1 + SIZEOF_STRUCT_BLOCK_META bm) in
                if old_size_aligned = new_size_aligned then Some (Inr (ptr, s1))
                else if new_size_aligned + SIZEOF_STRUCT_BLOCK_META bm < old_size_aligned \<and>
                        status_b b1 = STATUS_MAPPED
                then
                  bind_res (os_malloc bm sz k s1) (\<lambda>(newptr, s2).
                    if newptr = 0 then Some (Inr (0, s2))
                    else bind_res (memcpy bm newptr ptr new_size_aligned s2) (\<lambda>s3.
                         bind_res (os_free bm ptr k s3) (\<lambda>s4. Some (Inr (newptr, s4)))))
                else if new_size_aligned + SIZEOF_STRUCT_BLOCK_META bm < old_size_aligned \<and>
                        status_b b1 = STATUS_ALLOC
                then bind_res (split_block bm block sz s1) (\<lambda>s2. Some (Inr (ptr, s2)))
                else if new_size_aligned < old_size_aligned then Some (Inr (ptr, s1))
                else os_realloc_move bm ptr sz old_size_aligned k s1))"

section \<open>The block list\<close>

text \<open>
  \<open>chain h p as\<close>: in the header store \<open>h\<close>, following the \<^verbatim>\<open>next\<close> links from \<open>p\<close>
  visits exactly the addresses \<open>as\<close>, in this order, and then reaches the null pointer.
\<close>

fun chain :: "(addr \<Rightarrow> block_meta option) \<Rightarrow> addr \<Rightarrow> addr list \<Rightarrow> bool" where
  "chain h p [] = (p = 0)"
| "chain h p (a # as) =
     (p = a \<and> a \<noteq> 0 \<and> (case h a of None \<Rightarrow> False | Some b \<Rightarrow> chain h (next_b b) as))"

definition is_free :: "(addr \<Rightarrow> block_meta option) \<Rightarrow> addr \<Rightarrow> bool" where
  "is_free h a = (case h a of None \<Rightarrow> False | Some b \<Rightarrow> status_b b = STATUS_FREE)"

fun no_adjacent_free :: "(addr \<Rightarrow> block_meta option) \<Rightarrow> addr list \<Rightarrow> bool" where
  "no_adjacent_free h (a # b # as) =
     (\<not> (is_free h a \<and> is_free h b) \<and> no_adjacent_free h (b # as))"
| "no_adjacent_free h [a] = True"
| "no_adjacent_free h [] = True"

text \<open>
  \<open>contiguous H h as\<close>: the blocks \<open>as\<close> lie one behind the other in memory. Every block
  has a header in \<open>h\<close> and a size that is a multiple of 8, ends below \<open>2^64\<close>, and is
  followed in the list by the block that starts where its payload ends (\<open>H\<close> is the size
  of a header).
\<close>

fun contiguous :: "size_t \<Rightarrow> (addr \<Rightarrow> block_meta option) \<Rightarrow> addr list \<Rightarrow> bool" where
  "contiguous H h [] = True"
| "contiguous H h (a # as) =
     (case h a of None \<Rightarrow> False
      | Some b \<Rightarrow>
          size_b b AND 7 = 0 \<and> unat a + unat H + unat (size_b b) < 2 ^ 64 \<and>
          (case as of [] \<Rightarrow> True | a' # _ \<Rightarrow> a' = a + H + size_b b) \<and>
          contiguous H h as)"

text \<open>
  No two neighbours of a list of truth values are both true; \<open>no_adjacent_free\<close> is this
  property of the list of the \<open>is_free\<close> flags.
\<close>

fun no_adjacent_true :: "bool list \<Rightarrow> bool" where
  "no_adjacent_true (x # y # zs) = (\<not> (x \<and> y) \<and> no_adjacent_true (y # zs))"
| "no_adjacent_true [x] = True"
| "no_adjacent_true [] = True"

section \<open>Concrete runs\<close>

text \<open>
  The runs below start from the empty arena, with a header of 32 bytes. The program break is
  at 4096 when the first block is requested, and at 135168 = 4096 + 131072 after the
  preallocation. Each state is written out in full.
\<close>

definition hdr :: "size_t \<Rightarrow> status \<Rightarrow> addr \<Rightarrow> block_meta" where
  "hdr n st nx = \<lparr>size_b = n, status_b = st, next_b = nx\<rparr>"

definition kern0 :: kernel where
  "kern0 = \<lparr>sbrk_ret = 4096, mmap_ret = 1048576, munmap_ret = 0, pagesize = 4096\<rparr>"

definition kern1 :: kernel where
  "kern1 = \<lparr>sbrk_ret = 135168, mmap_ret = 1048576, munmap_ret = 0, pagesize = 4096\<rparr>"

definition fresh_arena :: arena where
  "fresh_arena =
     \<lparr>mem_begin = 0, mem_end = 0, heap = (\<lambda>_. None), bytes = (\<lambda>_. 0), calls = []\<rparr>"

definition ar_prealloc :: arena where
  "ar_prealloc =
     \<lparr>mem_begin = 4096, mem_end = 4096,
      heap = [4096 \<mapsto> hdr 131040 STATUS_ALLOC 0],
      bytes = (\<lambda>_. 0), calls = [Sbrk 131072]\<rparr>"

definition ar_released :: arena where
  "ar_released =
     \<lparr>mem_begin = 4096, mem_end = 4096,
      heap = [4096 \<mapsto> hdr 131040 STATUS_FREE 0],
      bytes = (\<lambda>_. 0), calls = [Sbrk 131072]\<rparr>"

definition ar_split :: arena where
  "ar_split =
     \<lparr>mem_begin = 4096, mem_end = 4136,
      heap = [4136 \<mapsto> hdr 131000 STATUS_FREE 0, 4096 \<mapsto> hdr 8 STATUS_ALLOC 4136],
      bytes = (\<lambda>_. 0), calls = [Sbrk 131072]\<rparr>"

definition ar_three :: arena where
  "ar_three =
     \<lparr>mem_begin = 4096, mem_end = 4176,
      heap = [4096 \<mapsto> hdr 8 STATUS_ALLOC 4136, 4176 \<mapsto> hdr 130960 STATUS_FREE 0,
              4136 \<mapsto> hdr 8 STATUS_ALLOC 4176],
      bytes = (\<lambda>_. 0), calls = [Sbrk 131072]\<rparr>"

definition ar_head_free :: arena where
  "ar_head_free =
     \<lparr>mem_begin = 4096, mem_end = 4176,
      heap = [4176 \<mapsto> hdr 130960 STATUS_FREE 0, 4136 \<mapsto> hdr 8 STATUS_ALLOC 4176,
              4096 \<mapsto> hdr 8 STATUS_FREE 4136],
      bytes = (\<lambda>_. 0), calls = [Sbrk 131072]\<rparr>"

definition ar_head_reused :: arena where
  "ar_head_reused =
     \<lparr>mem_begin = 4096, mem_end = 4176,
      heap = [4176 \<mapsto> hdr 130960 STATUS_FREE 0, 4136 \<mapsto> hdr 8 STATUS_ALLOC 4176,
              4096 \<mapsto> hdr 8 STATUS_ALLOC 4136],
      bytes = (\<lambda>_. 0), calls = [Sbrk 131072]\<rparr>"

definition ar_full :: arena where
  "ar_full =
     \<lparr>mem_begin = 4096, mem_end = 4136,
      heap = [4096 \<mapsto> hdr 8 STATUS_ALLOC 4136, 4136 \<mapsto> hdr 131000 STATUS_ALLOC 0],
      bytes = (\<lambda>_. 0), calls = [Sbrk 131072]\<rparr>"

definition ar_no_fit :: arena where
  "ar_no_fit =
     \<lparr>mem_begin = 4096, mem_end = 4136,
      heap = [4136 \<mapsto> hdr 131000 STATUS_ALLOC 0, 4096 \<mapsto> hdr 8 STATUS_FREE 4136],
      bytes = (\<lambda>_. 0), calls = [Sbrk 131072]\<rparr>"

definition ar_two_free :: arena where
  "ar_two_free =
     \<lparr>mem_begin = 4096, mem_end = 4136,
      heap = [4136 \<mapsto> hdr 131000 STATUS_FREE 0, 4096 \<mapsto> hdr 8 STATUS_FREE 4136],
      bytes = (\<lambda>_. 0), calls = [Sbrk 131072]\<rparr>"

definition ar_stale_tail :: arena where
  "ar_stale_tail =
     \<lparr>mem_begin = 4096, mem_end = 4136,
      heap = [4136 \<mapsto> hdr 131000 STATUS_FREE 0, 4192 \<mapsto> hdr 130944 STATUS_FREE 0,
              4096 \<mapsto> hdr 64 STATUS_ALLOC 4192],
      bytes = (\<lambda>_. 0), calls = [Sbrk 131072]\<rparr>"

definition ar_appended :: arena where
  "ar_appended =
     \<lparr>mem_begin = 4096, mem_end = 135168,
      heap = [135168 \<mapsto> hdr 8 STATUS_ALLOC 0, 4096 \<mapsto> hdr 131040 STATUS_ALLOC 135168],
      bytes = (\<lambda>_. 0), calls = [Sbrk 131072, Sbrk 40]\<rparr>"

definition ar_zero_block :: arena where
  "ar_zero_block =
     \<lparr>mem_begin = 4096, mem_end = 135168,
      heap = [135168 \<mapsto> hdr 0 STATUS_ALLOC 0, 4096 \<mapsto> hdr 131040 STATUS_ALLOC 135168],
      bytes = (\<lambda>_. 0), calls = [Sbrk 131072, Sbrk 32]\<rparr>"

definition ar_zero_freed :: arena where
  "ar_zero_freed =
     \<lparr>mem_begin = 4096, mem_end = 135168,
      heap = [4096 \<mapsto> hdr 131040 STATUS_ALLOC 135168, 135168 \<mapsto> hdr 0 STATUS_FREE 0],
      bytes = (\<lambda>_. 0), calls = [Sbrk 131072, Sbrk 32]\<rparr>"

text \<open>
  The block that \<^verbatim>\<open>create_block\<close> makes for a request of \<open>2^64 - 1\<close> bytes behind the
  preallocated block, before it is linked; the block that it makes for 8 bytes.
\<close>

definition ar_zero_created :: arena where
  "ar_zero_created =
     \<lparr>mem_begin = 4096, mem_end = 4096,
      heap = [4096 \<mapsto> hdr 131040 STATUS_ALLOC 0, 135168 \<mapsto> hdr 0 STATUS_ALLOC 0],
      bytes = (\<lambda>_. 0), calls = [Sbrk 131072, Sbrk 32]\<rparr>"

definition ar_created :: arena where
  "ar_created =
     \<lparr>mem_begin = 4096, mem_end = 4096,
      heap = [4096 \<mapsto> hdr 131040 STATUS_ALLOC 0, 135168 \<mapsto> hdr 8 STATUS_ALLOC 0],
      bytes = (\<lambda>_. 0), calls = [Sbrk 131072, Sbrk 40]\<rparr>"

text \<open>
  A request of 131072 bytes on the empty arena is mapped at 1048576; releasing it unmaps it.
\<close>

definition ar_mapped :: arena where
  "ar_mapped =
     \<lparr>mem_begin = 0, mem_end = 0,
      heap = [1048576 \<mapsto> hdr 131072 STATUS_MAPPED 0],
      bytes = (\<lambda>_. 0), calls = [Mmap 131104]\<rparr>"

definition ar_unmapped :: arena where
  "ar_unmapped =
     \<lparr>mem_begin = 0, mem_end = 0, heap = (\<lambda>_. None),
      bytes = (\<lambda>_. 0), calls = [Mmap 131104, Munmap 1048576 131104]\<rparr>"

text \<open>
  The preallocated block when the program break is at 135168.
\<close>

definition ar_prealloc_high :: arena where
  "ar_prealloc_high =
     \<lparr>mem_begin = 135168, mem_end = 135168,
      heap = [135168 \<mapsto> hdr 131040 STATUS_ALLOC 0],
      bytes = (\<lambda>_. 0), calls = [Sbrk 131072]\<rparr>"

text \<open>
  \<open>ar_two_free\<close> after a request of 131072 bytes, which is mapped at 1048576.
\<close>

definition ar_two_free_mapped :: arena where
  "ar_two_free_mapped =
     \<lparr>mem_begin = 4096, mem_end = 4136,
      heap = [4136 \<mapsto> hdr 131000 STATUS_FREE 0, 4096 \<mapsto> hdr 8 STATUS_FREE 4136,
              1048576 \<mapsto> hdr 131072 STATUS_MAPPED 0],
      bytes = (\<lambda>_. 0), calls = [Sbrk 131072, Mmap 131104]\<rparr>"

text \<open>
  The preallocated block shrunk to 1000 bytes by resize, and then to 8 bytes.
\<close>

definition ar_shrunk :: arena where
  "ar_shrunk =
     \<lparr>mem_begin = 4096, mem_end = 5128,
      heap = [5128 \<mapsto> hdr 130008 STATUS_FREE 0, 4096 \<mapsto> hdr 1000 STATUS_ALLOC 5128],
      bytes = (\<lambda>_. 0), calls = [Sbrk 131072]\<rparr>"

definition ar_shrunk_twice :: arena where
  "ar_shrunk_twice =
     \<lparr>mem_begin = 4096, mem_end = 5128,
      heap = [5128 \<mapsto> hdr 130008 STATUS_FREE 0, 4136 \<mapsto> hdr 960 STATUS_FREE 5128,
              4096 \<mapsto> hdr 8 STATUS_ALLOC 4136],
      bytes = (\<lambda>_. 0), calls = [Sbrk 131072]\<rparr>"

section \<open>Basic facts\<close>

lemma bind_res_simps [simp]:
  "bind_res None f = None"
  "bind_res (Some (Inl e)) f = Some (Inl e)"
  "bind_res (Some (Inr x)) f = f x"
  by (simp_all add: bind_res_def)

subsection \<open>Alignment\<close>

lemma seven_mask: "(7::64 word) = mask 3"
  by (simp add: mask_eq_exp_minus_1)

lemma ALIGN8_low: "ALIGN8 x AND 7 = 0"
  unfolding ALIGN8_def by (simp add: bit_eq_iff bit_simps) 

lemma and7_bit: "(x::64 word) AND 7 = 0 \<longleftrightarrow> (\<forall>n<3. \<not> bit x n)"
  unfolding seven_mask
  apply (auto simp add: bit_eq_iff bit_simps)
  apply (erule_tac x=n in allE)
  apply simp
  done

lemma ALIGN8_id: 
  assumes "x AND 7 = 0" shows "ALIGN8 x = x"
proof -
  have a: "x + 7 = x OR 7" using assms by (rule disjunctive_add_eq_or)
  have b: "\<forall>n<3. \<not> bit x n" using assms by (simp add: and7_bit)
  have "(x OR mask 3) AND NOT (mask 3) = x"
    apply (rule bit_eqI)
    using b apply (simp add: bit_simps)
    apply blast
    done
  then show ?thesis unfolding ALIGN8_def a unfolding seven_mask .
qed


lemma ALIGN8_idem: "ALIGN8 (ALIGN8 x) = ALIGN8 x"
  by (rule ALIGN8_id) (rule ALIGN8_low)

lemma and7_take_bit: "(x::64 word) AND 7 = take_bit 3 x"
  unfolding seven_mask by (simp add: take_bit_eq_mask)

lemma and7_push:
  assumes "(x::64 word) AND 7 = 0" shows "x = push_bit 3 (drop_bit 3 x)"
proof (rule bit_eqI)
  fix n
  have b: "\<forall>n<3. \<not> bit x n" using assms by (simp add: and7_bit)
  show "bit x n = bit (push_bit 3 (drop_bit 3 x)) n"
  proof (cases "3 \<le> n")
    case True
    then show ?thesis by (auto simp add: bit_simps dest: bit_imp_le_length)
  next
    case False
    then show ?thesis using b by (simp add: bit_simps)
  qed
qed

lemma push_and7: "push_bit 3 (z::64 word) AND 7 = 0"
  unfolding seven_mask by (simp add: bit_eq_iff bit_simps)

lemma and7_diff: 
  assumes "(x::64 word) AND 7 = 0" "y AND 7 = 0" shows "(x - y) AND 7 = 0"
proof -
  obtain a where a: "x = push_bit 3 a" using assms(1) and7_push by blast
  obtain b where b: "y = push_bit 3 b" using assms(2) and7_push by blast
  have "x - y = push_bit 3 (a - b)"
    unfolding a b by (simp only: push_bit_eq_mult left_diff_distrib)
  then show ?thesis by (simp only: push_and7)
qed

lemma less_sub:
  assumes "unat (h::64 word) \<le> unat t"
  shows "x < t - h \<longleftrightarrow> unat x + unat h < unat t"
proof -
  have "h \<le> t" using assms by (simp only: word_le_nat_alt)
  then have "unat (t - h) = unat t - unat h" by (rule unat_sub)
  then show ?thesis using assms unfolding word_less_nat_alt by linarith
qed

lemma and7_add:
  assumes "(x::64 word) AND 7 = 0" "y AND 7 = 0" shows "(x + y) AND 7 = 0"
proof -
  obtain a where a: "x = push_bit 3 a" using assms(1) and7_push by blast
  obtain b where b: "y = push_bit 3 b" using assms(2) and7_push by blast
  have "x + y = push_bit 3 (a + b)"
    unfolding a b by (simp only: push_bit_eq_mult distrib_right)
  then show ?thesis by (simp only: push_and7)
qed

lemma unat_add_le: "unat (x::64 word) + unat y < 2 ^ 64 \<Longrightarrow> unat (x + y) = unat x + unat y"
  using unat_add_lem [of x y] by simp

lemma SIZEOF_low: "SIZEOF_STRUCT_BLOCK_META bm AND 7 = 0"
  by (simp add: SIZEOF_STRUCT_BLOCK_META_def ALIGN8_low)

lemma and_not7: "(x::64 word) AND NOT 7 = push_bit 3 (drop_bit 3 x)"
  unfolding seven_mask by (rule bit_eqI) (auto simp add: bit_simps)

lemma unat_and_not7: "unat ((x::64 word) AND NOT 7) = (unat x div 8) * 8"
proof -
  let ?y = "drop_bit 3 x"
  have d: "unat ?y = unat x div 8"
    by (simp add: drop_bit_eq_div unat_div)
  have "unat x < 2 ^ 64" using unsigned_less [of x, where 'a = nat] by simp
  moreover have "unat x div 8 * 8 \<le> unat x" by simp
  ultimately have "unat ?y * unat (8::64 word) < 2 ^ LENGTH(64)" using d by simp
  then have "unat (?y * 8) = unat ?y * unat (8::64 word)"
    by (simp only: unat_mult_lem)
  then have "unat (?y * 8) = unat x div 8 * 8" using d by simp
  moreover have "push_bit 3 ?y = ?y * 8" by (simp add: push_bit_eq_mult)
  ultimately show ?thesis unfolding and_not7 by (simp only:)
qed

lemma ALIGN8_unat:
  assumes "unat n + 7 < 2 ^ 64" shows "unat (ALIGN8 n) = align8 (unat n)"
proof -
  have "unat (n + 7) = unat n + 7" using assms by (simp add: unat_add_le)
  then show ?thesis unfolding ALIGN8_def align8_def by (simp only: unat_and_not7)
qed

lemma split_offset:
  assumes sm: "sz < MMAP_THRESHOLD" and al: "sz AND 7 = 0"
    and H0: "SIZEOF_STRUCT_BLOCK_META bm \<noteq> 0"
    and HT: "unat (SIZEOF_STRUCT_BLOCK_META bm) \<le> unat MMAP_THRESHOLD"
  shows "ALIGN8 (sz + SIZEOF_STRUCT_BLOCK_META bm) \<noteq> 0"
proof -
  let ?H = "SIZEOF_STRUCT_BLOCK_META bm"
  have t: "unat MMAP_THRESHOLD = 131072" by (simp add: MMAP_THRESHOLD_def)
  from sm have "unat sz < 131072" by (simp add: word_less_nat_alt t)
  with HT t have "unat sz + unat ?H < 2 ^ 64" by simp
  then have "unat (sz + ?H) = unat sz + unat ?H" by (rule unat_add_le)
  moreover have "0 < unat ?H" using H0 by (simp add: unat_gt_0)
  ultimately have "unat (sz + ?H) \<noteq> 0" by simp
  then have nz: "sz + ?H \<noteq> 0" by (simp add: unat_eq_zero)
  have "(sz + ?H) AND 7 = 0" by (intro and7_add al SIZEOF_low)
  then have "ALIGN8 (sz + ?H) = sz + ?H" by (rule ALIGN8_id)
  with nz show ?thesis by simp
qed

subsection \<open>Fresh blocks\<close>

lemma create_block_sbrk:
  assumes "ALIGN8 n < T" "sbrk_ret k \<noteq> - 1" "sbrk_ret k \<noteq> 0"
  shows "create_block bm n T k s =
     Some (Inr (sbrk_ret k,
       s\<lparr>heap := (heap s)(sbrk_ret k \<mapsto>
               \<lparr>size_b = ALIGN8 n, status_b = STATUS_ALLOC, next_b = 0\<rparr>),
          calls := calls s @ [Sbrk (ALIGN8 (n + SIZEOF_STRUCT_BLOCK_META bm))]\<rparr>))"
  using assms by (simp add: create_block_def init_block_def store_def Let_def)

lemma create_block_eq:
  assumes "sbrk_ret k \<noteq> - 1" "sbrk_ret k \<noteq> 0" "mmap_ret k \<noteq> - 1" "mmap_ret k \<noteq> 0"
  shows "create_block bm n T k s =
     Some (Inr (if ALIGN8 n < T then sbrk_ret k else mmap_ret k,
       s\<lparr>heap := (heap s)((if ALIGN8 n < T then sbrk_ret k else mmap_ret k) \<mapsto>
               \<lparr>size_b = ALIGN8 n,
                status_b = (if ALIGN8 n < T then STATUS_ALLOC else STATUS_MAPPED),
                next_b = 0\<rparr>),
          calls := calls s @
               [(if ALIGN8 n < T then Sbrk else Mmap) (ALIGN8 (n + SIZEOF_STRUCT_BLOCK_META bm))]\<rparr>))"
  using assms by (simp add: create_block_def init_block_def store_def Let_def)

lemma prealloc_eq:
  assumes "sbrk_ret k \<noteq> - 1" "sbrk_ret k \<noteq> 0"
    and "SIZEOF_STRUCT_BLOCK_META bm \<noteq> 0"
    and "unat (SIZEOF_STRUCT_BLOCK_META bm) \<le> unat MMAP_THRESHOLD"
  shows "prealloc bm k s =
     Some (Inr (sbrk_ret k + bm,
       s\<lparr>heap := (heap s)(sbrk_ret k \<mapsto>
             \<lparr>size_b = MMAP_THRESHOLD - SIZEOF_STRUCT_BLOCK_META bm,
              status_b = STATUS_ALLOC, next_b = 0\<rparr>),
          calls := calls s @ [Sbrk MMAP_THRESHOLD],
          mem_begin := sbrk_ret k, mem_end := sbrk_ret k\<rparr>))"
proof -
  let ?H = "SIZEOF_STRUCT_BLOCK_META bm"
  have thr_al: "MMAP_THRESHOLD AND 7 = 0" by (simp add: MMAP_THRESHOLD_def)
  have a1: "ALIGN8 (MMAP_THRESHOLD - ?H) = MMAP_THRESHOLD - ?H"
    by (rule ALIGN8_id) (rule and7_diff [OF thr_al SIZEOF_low])
  have "0 < unat ?H" using assms(3) by (simp add: unat_gt_0)
  then have a3: "MMAP_THRESHOLD - ?H < MMAP_THRESHOLD"
    using assms(4) by (simp add: word_less_nat_alt unat_sub word_le_nat_alt)
  have a4: "ALIGN8 MMAP_THRESHOLD = MMAP_THRESHOLD"
    by (simp add: ALIGN8_id thr_al)
  show ?thesis
    using assms(1,2) a3 by (simp add: prealloc_def create_block_sbrk a1 a4 Let_def)
qed

lemma split_block_eq:
  assumes "heap s a = Some b" "a \<noteq> 0"
    and "a + ALIGN8 (sz + SIZEOF_STRUCT_BLOCK_META bm) \<noteq> 0"
    and "a + ALIGN8 (sz + SIZEOF_STRUCT_BLOCK_META bm) \<noteq> a"
  shows "\<exists>s2. split_block bm a sz s = Some (Inr s2) \<and>
           heap s2 = (heap s)
             (a + ALIGN8 (sz + SIZEOF_STRUCT_BLOCK_META bm) \<mapsto>
                \<lparr>size_b = ALIGN8 (size_b b - ALIGN8 (sz + SIZEOF_STRUCT_BLOCK_META bm)),
                 status_b = STATUS_FREE, next_b = next_b b\<rparr>,
              a \<mapsto> b\<lparr>next_b := a + ALIGN8 (sz + SIZEOF_STRUCT_BLOCK_META bm),
                      size_b := ALIGN8 sz\<rparr>) \<and>
           mem_begin s2 = mem_begin s"
  using assms by (simp add: split_block_def load_def init_block_def store_def Let_def)


subsection \<open>What the loops return\<close>

lemma last_loop_sound:
  assumes "last_loop s cur = Some r"
  shows "(\<forall>w. r \<noteq> Inl (NullDeref w)) \<and> (cur \<noteq> 0 \<longrightarrow> r \<noteq> Inr 0)"
proof (rule last_loop.raw_induct
    [where P = "\<lambda>s cur r. (\<forall>w. r \<noteq> Inl (NullDeref w)) \<and> (cur \<noteq> 0 \<longrightarrow> r \<noteq> Inr 0)", OF _ assms],
    goal_cases)
  case (1 f s cur r)
  note IH = "1"(1) and eq = "1"(2)
  show ?case
  proof (cases "cur = 0")
    case True
    with eq show ?thesis by auto
  next
    case nz: False
    show ?thesis
    proof (cases "heap s cur")
      case None
      with eq nz show ?thesis by (auto simp add: load_def)
    next
      case (Some c)
      show ?thesis
      proof (cases "next_b c = 0")
        case True
        with eq nz Some show ?thesis by (auto simp add: load_def)
      next
        case False
        with eq nz Some have "f s (next_b c) = Some r" by (simp add: load_def)
        from IH [OF this] False show ?thesis by simp
      qed
    qed
  qed
qed

lemma coalesce_loop_sound:
  assumes "coalesce_loop bm s cur = Some r"
  shows "(\<forall>w. r \<noteq> Inl (NullDeref w)) \<and> (\<forall>s'. r = Inr s' \<longrightarrow> mem_begin s' = mem_begin s)"
proof (rule coalesce_loop.raw_induct
    [where P = "\<lambda>bm s cur r. (\<forall>w. r \<noteq> Inl (NullDeref w)) \<and> (\<forall>s'. r = Inr s' \<longrightarrow> mem_begin s' = mem_begin s)", OF _ assms],
    goal_cases)
  case (1 f bm s cur r)
  note IH = "1"(1) and eq = "1"(2)
  consider (base) "r = Inr s" | (wild) v where "r = Inl (WildDeref v)"
    | (step) s1 c1 where "f bm s1 c1 = Some r" "mem_begin s1 = mem_begin s"
  proof (cases "cur = 0")
    case True
    with eq base show ?thesis by auto
  next
    case nz: False
    show ?thesis
    proof (cases "heap s cur")
      case None
      with eq nz wild show ?thesis by (auto simp add: load_def)
    next
      case c: (Some c)
      show ?thesis
      proof (cases "next_b c = 0")
        case True
        with eq nz c base show ?thesis by (auto simp add: load_def)
      next
        case nn: False
        show ?thesis
        proof (cases "status_b c = STATUS_FREE")
          case False
          with eq nz c nn have "f bm s (next_b c) = Some r" by (simp add: load_def)
          then show ?thesis by (rule step) simp
        next
          case fr: True
          show ?thesis
          proof (cases "heap s (next_b c)")
            case None
            with eq nz c nn fr wild show ?thesis by (auto simp add: load_def)
          next
            case t: (Some t)
            show ?thesis
            proof (cases "status_b t = STATUS_FREE")
              case True
              with eq nz c nn fr t
              have "f bm (store s cur (c\<lparr>next_b := next_b t,
                   size_b := ALIGN8 (size_b c + (size_b t + SIZEOF_STRUCT_BLOCK_META bm))\<rparr>)) cur = Some r"
                by (simp add: load_def)
              then show ?thesis by (rule step) (simp add: store_def)
            next
              case False
              with eq nz c nn fr t have "f bm s (next_b c) = Some r" by (simp add: load_def)
              then show ?thesis by (rule step) simp
            qed
          qed
        qed
      qed
    qed
  qed
  then show ?case
  proof cases
    case base
    then show ?thesis by simp
  next
    case wild
    then show ?thesis by simp
  next
    case step
    from IH [OF step(1)] show ?thesis unfolding step(2) .
  qed
qed

lemma best_loop_sound:
  assumes "best_loop s sz cur best bfs cbu = Some r"
  shows "(\<forall>w. r \<noteq> Inl (NullDeref w)) \<and> (best \<noteq> 0 \<longrightarrow> (\<forall>b c. r = Inr (b, c) \<longrightarrow> b \<noteq> 0))"
proof (rule best_loop.raw_induct
    [where P = "\<lambda>s sz cur best bfs cbu r. (\<forall>w. r \<noteq> Inl (NullDeref w)) \<and> (best \<noteq> 0 \<longrightarrow> (\<forall>b c. r = Inr (b, c) \<longrightarrow> b \<noteq> 0))", OF _ assms],
    goal_cases)
  case (1 f s sz cur best bfs cbu r)
  note IH = "1"(1) and eq = "1"(2)
  show ?case
  proof (cases "cur = 0")
    case True
    with eq show ?thesis by auto
  next
    case nz: False
    show ?thesis
    proof (cases "heap s cur")
      case None
      with eq nz show ?thesis by (auto simp add: load_def)
    next
      case (Some c)
      with eq nz consider (a) "f s sz (next_b c) cur (size_b c) 1 = Some r"
        | (b) "f s sz (next_b c) best bfs cbu = Some r"
        by (simp add: load_def split: if_splits)
      then show ?thesis
      proof cases
        case a
        from IH [OF a] nz show ?thesis by simp
      next
        case b
        from IH [OF b] show ?thesis by simp
      qed
    qed
  qed
qed

lemma bind_res_Some:
  "bind_res m f = Some r \<Longrightarrow> (\<exists>e. m = Some (Inl e) \<and> r = Inl e) \<or> (\<exists>x. m = Some (Inr x) \<and> f x = Some r)"
  by (cases m) (auto simp add: bind_res_def split: sum.splits)

lemma load_Inl: "load v s p = Inl e \<Longrightarrow> (p = 0 \<and> e = NullDeref v) \<or> (p \<noteq> 0 \<and> e = WildDeref v)"
  by (simp add: load_def split: if_splits option.splits)

lemma coalesce_blocks_sound:
  assumes "coalesce_blocks bm s = Some r"
  shows "(\<forall>w. r \<noteq> Inl (NullDeref w)) \<and>
         (\<forall>s'. r = Inr s' \<longrightarrow> mem_begin s' = mem_begin s \<and> (mem_begin s \<noteq> 0 \<longrightarrow> mem_end s' \<noteq> 0))"
proof -
  from assms [unfolded coalesce_blocks_def]
  consider (e1) e where "coalesce_loop bm s (mem_begin s) = Some (Inl e)" "r = Inl e"
    | (ok) s1 where "coalesce_loop bm s (mem_begin s) = Some (Inr s1)"
        "bind_res (last_loop s1 (mem_begin s1)) (\<lambda>cur. Some (Inr (s1\<lparr>mem_end := cur\<rparr>))) = Some r"
    by (blast dest: bind_res_Some)
  then show ?thesis
  proof cases
    case e1
    from coalesce_loop_sound [OF e1(1)] e1(2) show ?thesis by simp
  next
    case ok
    from coalesce_loop_sound [OF ok(1)] have mb: "mem_begin s1 = mem_begin s" by simp
    from ok(2) consider (e2) e where "last_loop s1 (mem_begin s1) = Some (Inl e)" "r = Inl e"
      | (ok2) c where "last_loop s1 (mem_begin s1) = Some (Inr c)" "r = Inr (s1\<lparr>mem_end := c\<rparr>)"
      by (auto dest!: bind_res_Some)
    then show ?thesis
    proof cases
      case e2
      from last_loop_sound [OF e2(1)] e2(2) show ?thesis by simp
    next
      case ok2
      from last_loop_sound [OF ok2(1)] have "mem_begin s1 \<noteq> 0 \<longrightarrow> c \<noteq> 0" by simp
      with ok2(2) mb show ?thesis by simp
    qed
  qed
qed

lemma split_block_sound:
  assumes "split_block bm block sz s = Some r"
  shows "r \<noteq> Inl (NullDeref ''mem_end'')"
  using assms
  by (auto simp add: split_block_def Let_def init_block_def load_def store_def
      split: sum.splits if_splits option.splits)

lemma find_best_block_sound:
  assumes fb: "find_best_block bm sz s = Some r" and nz: "mem_begin s \<noteq> 0"
  shows "r \<noteq> Inl (NullDeref ''mem_end'') \<and> (\<forall>s'. r = Inr (0, s') \<longrightarrow> mem_end s' \<noteq> 0)"
proof -
  from fb nz have 1: "bind_res (coalesce_blocks bm s) (\<lambda>s1.
        let cur = mem_begin s1 in
        case load ''curr'' s1 cur of Inl e \<Rightarrow> Some (Inl e) | Inr c \<Rightarrow>
          let best_fit_size = size_b c;
              best = cur;
              can_be_used = (if status_b c = STATUS_FREE then 1 else 0)
          in bind_res (best_loop s1 sz cur best best_fit_size can_be_used)
               (\<lambda>(best, can_be_used).
                  let size_aligned = ALIGN8 (sz + SIZEOF_STRUCT_BLOCK_META bm) in
                  bind_res
                    (if can_be_used = 1 then
                       (case load ''best'' s1 best of Inl e \<Rightarrow> Some (Inl e) | Inr b \<Rightarrow>
                          if size_aligned < size_b b then split_block bm best sz s1
                          else Some (Inr s1))
                     else Some (Inr s1))
                    (\<lambda>s2. Some (Inr (if can_be_used = 1 then best else 0, s2))))) = Some r"
    by (simp add: find_best_block_def)
  from bind_res_Some [OF 1] show ?thesis
  proof (elim disjE exE conjE)
    fix e assume "coalesce_blocks bm s = Some (Inl e)" "r = Inl e"
    with coalesce_blocks_sound [of bm s "Inl e"] show ?thesis by simp
  next
    fix s1
    assume cb: "coalesce_blocks bm s = Some (Inr s1)"
      and 2: "(let cur = mem_begin s1 in
        case load ''curr'' s1 cur of Inl e \<Rightarrow> Some (Inl e) | Inr c \<Rightarrow>
          let best_fit_size = size_b c;
              best = cur;
              can_be_used = (if status_b c = STATUS_FREE then 1 else 0)
          in bind_res (best_loop s1 sz cur best best_fit_size can_be_used)
               (\<lambda>(best, can_be_used).
                  let size_aligned = ALIGN8 (sz + SIZEOF_STRUCT_BLOCK_META bm) in
                  bind_res
                    (if can_be_used = 1 then
                       (case load ''best'' s1 best of Inl e \<Rightarrow> Some (Inl e) | Inr b \<Rightarrow>
                          if size_aligned < size_b b then split_block bm best sz s1
                          else Some (Inr s1))
                     else Some (Inr s1))
                    (\<lambda>s2. Some (Inr (if can_be_used = 1 then best else 0, s2))))) = Some r"
    from coalesce_blocks_sound [OF cb] nz
    have mb: "mem_begin s1 \<noteq> 0" and me: "mem_end s1 \<noteq> 0" by simp_all
    show ?thesis
    proof (cases "load ''curr'' s1 (mem_begin s1)")
      case (Inl e)
      with 2 mb show ?thesis by (auto dest: load_Inl)
    next
      case (Inr c)
      with 2 have 3: "bind_res (best_loop s1 sz (mem_begin s1) (mem_begin s1) (size_b c)
                 (if status_b c = STATUS_FREE then 1 else 0))
               (\<lambda>(best, can_be_used).
                  bind_res
                    (if can_be_used = 1 then
                       (case load ''best'' s1 best of Inl e \<Rightarrow> Some (Inl e) | Inr b \<Rightarrow>
                          if ALIGN8 (sz + SIZEOF_STRUCT_BLOCK_META bm) < size_b b
                          then split_block bm best sz s1
                          else Some (Inr s1))
                     else Some (Inr s1))
                    (\<lambda>s2. Some (Inr (if can_be_used = 1 then best else 0, s2)))) = Some r"
        by (simp add: Let_def)
      from bind_res_Some [OF 3] show ?thesis
      proof (elim disjE exE conjE)
        fix e assume bl: "best_loop s1 sz (mem_begin s1) (mem_begin s1) (size_b c)
                 (if status_b c = STATUS_FREE then 1 else 0) = Some (Inl e)" and "r = Inl e"
        with best_loop_sound [OF bl] show ?thesis by simp
      next
        fix x assume bl: "best_loop s1 sz (mem_begin s1) (mem_begin s1) (size_b c)
                 (if status_b c = STATUS_FREE then 1 else 0) = Some (Inr x)"
          and 4: "(case x of (best, can_be_used) \<Rightarrow>
                  bind_res
                    (if can_be_used = 1 then
                       (case load ''best'' s1 best of Inl e \<Rightarrow> Some (Inl e) | Inr b \<Rightarrow>
                          if ALIGN8 (sz + SIZEOF_STRUCT_BLOCK_META bm) < size_b b
                          then split_block bm best sz s1
                          else Some (Inr s1))
                     else Some (Inr s1))
                    (\<lambda>s2. Some (Inr (if can_be_used = 1 then best else 0, s2)))) = Some r"
        obtain best cbu where x: "x = (best, cbu)" by (cases x)
        from best_loop_sound [OF bl] mb x have bnz: "best \<noteq> 0" by simp
        show ?thesis
        proof (cases "cbu = 1")
          case False
          with 4 x me show ?thesis by auto
        next
          case True
          with 4 x have 5: "bind_res
                    (case load ''best'' s1 best of Inl e \<Rightarrow> Some (Inl e) | Inr b \<Rightarrow>
                          if ALIGN8 (sz + SIZEOF_STRUCT_BLOCK_META bm) < size_b b
                          then split_block bm best sz s1
                          else Some (Inr s1))
                    (\<lambda>s2. Some (Inr (best, s2))) = Some r"
            by simp
          from bind_res_Some [OF 5] show ?thesis
          proof (elim disjE exE conjE)
            fix e assume 6: "(case load ''best'' s1 best of Inl e \<Rightarrow> Some (Inl e) | Inr b \<Rightarrow>
                          if ALIGN8 (sz + SIZEOF_STRUCT_BLOCK_META bm) < size_b b
                          then split_block bm best sz s1
                          else Some (Inr s1)) = Some (Inl e)" and r: "r = Inl e"
            show ?thesis
            proof (cases "load ''best'' s1 best")
              case (Inl e')
              with 6 r bnz show ?thesis by (auto dest: load_Inl)
            next
              case (Inr b)
              with 6 have "split_block bm best sz s1 = Some (Inl e)"
                by (simp split: if_splits)
              from split_block_sound [OF this] r show ?thesis by simp
            qed
          next
            fix s2 assume "Some (Inr (best, s2)) = Some r"
            with bnz show ?thesis by auto
          qed
        qed
      qed
    qed
  qed
qed

lemma os_malloc_fresh_sound:
  assumes "os_malloc_fresh bm sa T k s = Some r"
    and "ALIGN8 sa = sa"
    and "mem_end s \<noteq> 0 \<or> \<not> sa < T - SIZEOF_STRUCT_BLOCK_META bm \<or> mem_begin s = 0"
  shows "r \<noteq> Inl (NullDeref ''mem_end'')"
  using assms
  by (auto simp add: os_malloc_fresh_def prealloc_def create_block_def init_block_def
      load_def store_def Let_def split: if_splits option.splits)

lemma os_malloc_rest_sound:
  assumes "os_malloc_rest bm sa T k s = Some r"
    and "ALIGN8 sa = sa"
    and "mem_end s \<noteq> 0 \<or> \<not> sa < T - SIZEOF_STRUCT_BLOCK_META bm \<or> mem_begin s = 0"
  shows "r \<noteq> Inl (NullDeref ''mem_end'')"
proof (cases "mem_end s = 0")
  case True
  with assms(1) have "os_malloc_fresh bm sa T k s = Some r" by (simp add: os_malloc_rest_def)
  from os_malloc_fresh_sound [OF this assms(2,3)] show ?thesis .
next
  case False
  show ?thesis
  proof (cases "os_malloc_fresh bm sa T k s = Some r")
    case True
    from os_malloc_fresh_sound [OF this assms(2,3)] show ?thesis .
  next
    case nf: False
    with assms(1) False show ?thesis
      by (auto simp add: os_malloc_rest_def load_def Let_def split: if_splits option.splits)
  qed
qed


subsection \<open>Lists in the header store\<close>

lemma chain_upd_other: "a \<notin> set as \<Longrightarrow> chain (h(a \<mapsto> b)) p as = chain h p as"
  by (induction as arbitrary: p) (auto split: option.splits)

lemma chain_unique: "chain h p as \<Longrightarrow> chain h p bs \<Longrightarrow> as = bs"
proof (induction as arbitrary: p bs)
  case Nil
  then show ?case by (cases bs) auto
next
  case (Cons a as)
  then show ?case by (cases bs) (auto split: option.splits)
qed

lemma chain_suffix: "chain h p (xs @ a # ys) \<Longrightarrow> chain h a (a # ys)"
proof (induction xs arbitrary: p)
  case Nil
  then show ?case by simp
next
  case (Cons x xs)
  from Cons.prems obtain b where "h x = Some b" "chain h (next_b b) (xs @ a # ys)"
    by (auto split: option.splits)
  from Cons.IH [OF this(2)] show ?case .
qed

lemma chain_distinct: "chain h p as \<Longrightarrow> distinct as"
proof (induction as arbitrary: p)
  case Nil
  then show ?case by simp
next
  case (Cons a as)
  from Cons.prems obtain b where b: "h a = Some b" "chain h (next_b b) as" "p = a" "a \<noteq> 0"
    by (auto split: option.splits)
  have "a \<notin> set as"
  proof
    assume "a \<in> set as"
    then obtain xs ys where "as = xs @ a # ys" by (auto simp add: in_set_conv_decomp)
    with b(2) have "chain h a (a # ys)" by (auto dest: chain_suffix)
    with b(1) have "chain h (next_b b) ys" by simp
    with b(2) have "as = ys" by (rule chain_unique)
    with \<open>as = xs @ a # ys\<close> show False by simp
  qed
  with Cons.IH [OF b(2)] show ?case by simp
qed

lemma last_loop_chain:
  "chain (heap s) cur as \<Longrightarrow> last_loop s cur = Some (Inr (if as = [] then 0 else last as))"
proof (induction as arbitrary: cur)
  case Nil
  then show ?case by (simp add: last_loop.simps)
next
  case (Cons a as)
  from Cons.prems obtain b where b: "heap s a = Some b" "chain (heap s) (next_b b) as" "cur = a" "a \<noteq> 0"
    by (auto split: option.splits)
  show ?case
  proof (cases as)
    case Nil
    with b show ?thesis by (subst last_loop.simps) (simp add: load_def)
  next
    case (Cons c cs)
    with b have "next_b b \<noteq> 0" by auto
    with b Cons.IH [OF b(2)] Cons show ?thesis
      by (subst last_loop.simps) (simp add: load_def)
  qed
qed

lemma is_free_Some: "h a = Some b \<Longrightarrow> is_free h a = (status_b b = STATUS_FREE)"
  by (simp add: is_free_def)

lemma chain_nonzero: "chain h p as \<Longrightarrow> 0 \<notin> set as"
  by (induction as arbitrary: p) (auto split: option.splits)

lemma chain_head: "chain h p as \<Longrightarrow> p \<noteq> 0 \<Longrightarrow> \<exists>as'. as = p # as'"
  by (cases as) auto

lemma chain_prefix_replace:
  "chain h p (xs @ a # ys) \<Longrightarrow> \<forall>x\<in>set xs. h' x = h x \<Longrightarrow> chain h' a zs \<Longrightarrow>
   chain h' p (xs @ zs)"
proof (induction xs arbitrary: p)
  case Nil
  then show ?case by simp
next
  case (Cons x xs)
  from Cons.prems(1) obtain b where b: "p = x" "x \<noteq> 0" "h x = Some b"
      "chain h (next_b b) (xs @ a # ys)"
    by (auto split: option.splits)
  from Cons.prems(2) have hx: "h' x = Some b" and rest: "\<forall>x\<in>set xs. h' x = h x"
    using b(3) by simp_all
  from Cons.IH [OF b(4) rest Cons.prems(3)] have "chain h' (next_b b) (xs @ zs)" .
  with b(1,2) hx show ?case by simp
qed

lemma chain_upd_same_next:
  "chain h p as \<Longrightarrow> h a = Some b \<Longrightarrow> next_b b' = next_b b \<Longrightarrow> chain (h(a \<mapsto> b')) p as"
proof (induction as arbitrary: p)
  case Nil
  then show ?case by simp
next
  case (Cons x xs)
  from Cons.prems(1) obtain c where c: "p = x" "x \<noteq> 0" "h x = Some c" "chain h (next_b c) xs"
    by (auto split: option.splits)
  from Cons.IH [OF c(4) Cons.prems(2,3)] have ih: "chain (h(a \<mapsto> b')) (next_b c) xs" .
  have hx: "(h(a \<mapsto> b')) x = Some (if x = a then b' else c)" using c(3) by simp
  have nx: "next_b (if x = a then b' else c) = next_b c"
    using Cons.prems(2,3) c(3) by auto
  from ih have "chain (h(a \<mapsto> b')) (next_b (if x = a then b' else c)) xs"
    by (simp only: nx)
  with c(1,2) show ?case unfolding chain.simps hx option.case by blast
qed

lemma chain_split:
  assumes ch: "chain h p (xs @ a # ys)" and ha: "h a = Some b"
    and fr: "sp \<notin> set (xs @ a # ys)" and nz: "sp \<noteq> 0"
    and nS: "next_b S = next_b b" and nB: "next_b B = sp"
  shows "chain (h(sp \<mapsto> S, a \<mapsto> B)) p (xs @ a # sp # ys)"
proof -
  let ?h = "h(sp \<mapsto> S, a \<mapsto> B)"
  from chain_distinct [OF ch] have d: "a \<notin> set xs" "a \<notin> set ys" by auto
  from fr have f: "sp \<noteq> a" "sp \<notin> set xs" "sp \<notin> set ys" by auto
  from chain_suffix [OF ch] ha have a0: "a \<noteq> 0" and t: "chain h (next_b b) ys" by simp_all
  have "chain (h(sp \<mapsto> S)) (next_b b) ys" using t f(3) by (simp add: chain_upd_other)
  then have "chain ?h (next_b b) ys" using d(2) by (simp add: chain_upd_other)
  then have 1: "chain ?h a (a # sp # ys)" using a0 nz f(1) nS nB by simp
  have 2: "\<forall>x\<in>set xs. ?h x = h x" using d(1) f(2) by auto
  from chain_prefix_replace [OF ch 2 1] show ?thesis .
qed

lemma chain_snoc:
  assumes ch: "chain h p (xs @ [l])" and hl: "h l = Some e"
    and fr: "nb \<notin> set (xs @ [l])" and nz: "nb \<noteq> 0"
    and nN: "next_b N = 0" and nE: "next_b E = nb"
  shows "chain (h(nb \<mapsto> N, l \<mapsto> E)) p (xs @ [l, nb])"
proof -
  let ?h = "h(nb \<mapsto> N, l \<mapsto> E)"
  from chain_distinct [OF ch] have d: "l \<notin> set xs" by auto
  from fr have f: "nb \<noteq> l" "nb \<notin> set xs" by auto
  from chain_suffix [OF ch] have l0: "l \<noteq> 0" by simp
  have 1: "chain ?h l [l, nb]" using l0 nz f(1) nN nE by simp
  have 2: "\<forall>x\<in>set xs. ?h x = h x" using d f(2) by auto
  from chain_prefix_replace [OF ch 2 1] show ?thesis .
qed

subsection \<open>Adjacent free blocks\<close>

lemma no_adjacent_free_map: "no_adjacent_free h as = no_adjacent_true (map (is_free h) as)"
  by (induction h as rule: no_adjacent_free.induct) simp_all

lemma no_adjacent_true_Cons:
  "no_adjacent_true (x # ys) = ((ys = [] \<or> \<not> (x \<and> hd ys)) \<and> no_adjacent_true ys)"
  by (cases ys) auto

lemma no_adjacent_true_clear: "no_adjacent_true (xs @ v # ys) \<Longrightarrow> no_adjacent_true (xs @ False # ys)"
proof (induction xs)
  case Nil
  then show ?case by (simp add: no_adjacent_true_Cons)
next
  case (Cons x xs)
  then show ?case by (cases xs) (simp_all add: no_adjacent_true_Cons)
qed

lemma no_adjacent_true_split: "no_adjacent_true (xs @ True # ys) \<Longrightarrow> no_adjacent_true (xs @ False # True # ys)"
proof (induction xs)
  case Nil
  then show ?case by (simp add: no_adjacent_true_Cons)
next
  case (Cons x xs)
  then show ?case by (cases xs) (simp_all add: no_adjacent_true_Cons)
qed

lemma no_adjacent_true_snoc: "no_adjacent_true xs \<Longrightarrow> no_adjacent_true (xs @ [False])"
proof (induction xs)
  case Nil
  then show ?case by simp
next
  case (Cons x xs)
  then show ?case by (cases xs) (simp_all add: no_adjacent_true_Cons)
qed

lemma is_free_map_cong:
  "\<forall>x\<in>set xs. h' x = h x \<Longrightarrow> map (is_free h') xs = map (is_free h) xs"
  by (simp add: is_free_def)

lemma no_adjacent_free_upd_other: "a \<notin> set as \<Longrightarrow> no_adjacent_free (h(a \<mapsto> b)) as = no_adjacent_free h as"
proof -
  assume "a \<notin> set as"
  then have "\<forall>x\<in>set as. (h(a \<mapsto> b)) x = h x" by auto
  from is_free_map_cong [OF this] show ?thesis by (simp only: no_adjacent_free_map)
qed

lemma no_adjacent_free_clear:
  assumes d: "distinct (xs @ a # ys)" and n: "no_adjacent_free h (xs @ a # ys)"
    and st: "status_b B \<noteq> STATUS_FREE"
  shows "no_adjacent_free (h(a \<mapsto> B)) (xs @ a # ys)"
proof -
  let ?h = "h(a \<mapsto> B)"
  from d have "\<forall>x\<in>set xs. ?h x = h x" "\<forall>x\<in>set ys. ?h x = h x" by auto
  then have m: "map (is_free ?h) xs = map (is_free h) xs" "map (is_free ?h) ys = map (is_free h) ys"
    by (simp_all only: is_free_map_cong)
  have a: "is_free ?h a = False" using st by (simp add: is_free_def)
  from n have "no_adjacent_true (map (is_free h) xs @ is_free h a # map (is_free h) ys)"
    by (simp add: no_adjacent_free_map)
  then have "no_adjacent_true (map (is_free h) xs @ False # map (is_free h) ys)"
    by (rule no_adjacent_true_clear)
  then show ?thesis by (simp add: no_adjacent_free_map m a)
qed

lemma no_adjacent_free_split:
  assumes d: "distinct (xs @ a # ys)" and fr: "sp \<notin> set (xs @ a # ys)"
    and n: "no_adjacent_free h (xs @ a # ys)" and fa: "is_free h a"
    and st: "status_b B \<noteq> STATUS_FREE" and sS: "status_b S = STATUS_FREE"
  shows "no_adjacent_free (h(sp \<mapsto> S, a \<mapsto> B)) (xs @ a # sp # ys)"
proof -
  let ?h = "h(sp \<mapsto> S, a \<mapsto> B)"
  from d fr have "\<forall>x\<in>set xs. ?h x = h x" "\<forall>x\<in>set ys. ?h x = h x" by auto
  then have m: "map (is_free ?h) xs = map (is_free h) xs" "map (is_free ?h) ys = map (is_free h) ys"
    by (simp_all only: is_free_map_cong)
  have a: "is_free ?h a = False" using st by (simp add: is_free_def)
  have s: "is_free ?h sp = True" using sS fr by (simp add: is_free_def)
  from n fa have "no_adjacent_true (map (is_free h) xs @ True # map (is_free h) ys)"
    by (simp add: no_adjacent_free_map)
  then have "no_adjacent_true (map (is_free h) xs @ False # True # map (is_free h) ys)"
    by (rule no_adjacent_true_split)
  then show ?thesis by (simp add: no_adjacent_free_map m a s)
qed

lemma no_adjacent_free_snoc:
  assumes d: "distinct (xs @ [l])" and fr: "nb \<notin> set (xs @ [l])"
    and n: "no_adjacent_free h (xs @ [l])" and hl: "h l = Some e"
    and sE: "status_b E = status_b e" and sN: "status_b N \<noteq> STATUS_FREE"
  shows "no_adjacent_free (h(nb \<mapsto> N, l \<mapsto> E)) (xs @ [l, nb])"
proof -
  let ?h = "h(nb \<mapsto> N, l \<mapsto> E)"
  from d fr have "\<forall>x\<in>set xs. ?h x = h x" by auto
  then have m: "map (is_free ?h) xs = map (is_free h) xs"
    by (simp only: is_free_map_cong)
  have a: "is_free ?h l = is_free h l" using sE hl by (simp add: is_free_def)
  have s: "is_free ?h nb = False" using sN fr by (simp add: is_free_def)
  from n have "no_adjacent_true (map (is_free h) (xs @ [l]))"
    by (simp only: no_adjacent_free_map)
  then have "no_adjacent_true (map (is_free h) (xs @ [l]) @ [False])"
    by (rule no_adjacent_true_snoc)
  then show ?thesis by (simp add: no_adjacent_free_map m a s)
qed

subsection \<open>Blocks one behind the other\<close>

lemma contiguous_Cons:
  "contiguous H h (a # as) =
     (\<exists>b. h a = Some b \<and> size_b b AND 7 = 0 \<and> unat a + unat H + unat (size_b b) < 2 ^ 64 \<and>
          (as = [] \<or> hd as = a + H + size_b b) \<and> contiguous H h as)"
  by (cases as) (auto split: option.splits)

lemma contiguous_suffix: "contiguous H h (xs @ ys) \<Longrightarrow> contiguous H h ys"
  by (induction xs) (auto simp add: contiguous_Cons simp del: contiguous.simps(2))

lemma contiguous_ge:
  "contiguous H h (a # as) \<Longrightarrow> h a = Some b \<Longrightarrow> x \<in> set as \<Longrightarrow>
   unat a + unat H + unat (size_b b) \<le> unat x"
proof (induction as arbitrary: a b)
  case Nil
  then show ?case by simp
next
  case (Cons a' as)
  from Cons.prems(1,2) have nw: "unat a + unat H + unat (size_b b) < 2 ^ 64"
    and a': "a' = a + H + size_b b" and ct: "contiguous H h (a' # as)"
    by (simp_all only: contiguous_Cons list.sel) auto
  have "unat (a + H) = unat a + unat H" using nw by (intro unat_add_le) simp
  then have ua: "unat a' = unat a + unat H + unat (size_b b)"
    unfolding a' using nw by (simp add: unat_add_le)
  show ?case
  proof (cases "x = a'")
    case True
    with ua show ?thesis by simp
  next
    case False
    with Cons.prems(3) have x: "x \<in> set as" by simp
    from ct obtain b' where b': "h a' = Some b'" by (auto simp only: contiguous_Cons)
    from Cons.IH [OF ct b' x] ua show ?thesis by simp
  qed
qed

lemma contiguous_before:
  "contiguous H h (xs @ a # ys) \<Longrightarrow> x \<in> set xs \<Longrightarrow> unat x \<le> unat a"
proof (induction xs)
  case Nil
  then show ?case by simp
next
  case (Cons x' xs)
  show ?case
  proof (cases "x = x'")
    case True
    from Cons.prems(1) have ct: "contiguous H h (x' # (xs @ a # ys))" by simp
    then obtain b' where b': "h x' = Some b'" by (auto simp only: contiguous_Cons)
    have "a \<in> set (xs @ a # ys)" by simp
    from contiguous_ge [OF ct b' this] True show ?thesis by simp
  next
    case False
    with Cons.prems(2) have x: "x \<in> set xs" by simp
    from Cons.prems(1) have "contiguous H h (xs @ a # ys)"
      using contiguous_suffix [of H h "[x']" "xs @ a # ys"] by simp
    from Cons.IH [OF this x] show ?thesis .
  qed
qed

lemma contiguous_fresh:
  assumes ct: "contiguous H h (xs @ a # ys)" and ha: "h a = Some b"
    and d0: "d \<noteq> 0" and dl: "unat d < unat H + unat (size_b b)"
  shows "a + d \<notin> set (xs @ a # ys) \<and> a + d \<noteq> 0"
proof -
  from contiguous_suffix [OF ct] have cs: "contiguous H h (a # ys)" .
  with ha have nw: "unat a + unat H + unat (size_b b) < 2 ^ 64"
    by (auto simp only: contiguous_Cons)
  have "0 < unat d" using d0 by (simp add: unat_gt_0)
  moreover have "unat (a + d) = unat a + unat d" using nw dl by (intro unat_add_le) simp
  ultimately have gt: "unat a < unat (a + d)" and lt: "unat (a + d) < unat a + unat H + unat (size_b b)"
    using dl by simp_all
  have 1: "a + d \<notin> set xs"
  proof
    assume "a + d \<in> set xs"
    from contiguous_before [OF ct this] gt show False by simp
  qed
  have 2: "a + d \<notin> set ys"
  proof
    assume "a + d \<in> set ys"
    from contiguous_ge [OF cs ha this] lt show False by simp
  qed
  have 3: "a + d \<noteq> a" using gt by auto
  have 4: "a + d \<noteq> 0" using gt by auto
  from 1 2 3 4 show ?thesis by simp
qed

lemma contiguous_upd_other:
  "a \<notin> set as \<Longrightarrow> contiguous H (h(a \<mapsto> b)) as = contiguous H h as"
  by (induction as) (auto simp add: contiguous_Cons simp del: contiguous.simps(2))

lemma contiguous_merge:
  assumes ct: "contiguous H h (a # b # rest)" and ha: "h a = Some c" and hb: "h b = Some t"
    and al: "H AND 7 = 0" and fr: "a \<notin> set rest"
  shows "contiguous H (h(a \<mapsto> c\<lparr>next_b := nx, size_b := ALIGN8 (size_b c + (size_b t + H))\<rparr>))
           (a # rest)"
proof -
  from ct ha have ac: "size_b c AND 7 = 0" and nwa: "unat a + unat H + unat (size_b c) < 2 ^ 64"
    and b: "b = a + H + size_b c" and ctb: "contiguous H h (b # rest)"
    by (simp_all only: contiguous_Cons list.sel) auto
  from ctb hb have at: "size_b t AND 7 = 0" and nwb: "unat b + unat H + unat (size_b t) < 2 ^ 64"
    and r: "rest = [] \<or> hd rest = b + H + size_b t" and ctr: "contiguous H h rest"
    by (simp_all only: contiguous_Cons) auto
  have "unat (a + H) = unat a + unat H" using nwa by (intro unat_add_le) simp
  then have ub: "unat b = unat a + unat H + unat (size_b c)"
    unfolding b using nwa by (simp add: unat_add_le)
  let ?n = "size_b c + (size_b t + H)"
  have "?n AND 7 = 0" by (intro and7_add ac at al)
  then have n: "ALIGN8 ?n = ?n" by (rule ALIGN8_id)
  have "unat (size_b t + H) = unat (size_b t) + unat H" using nwb by (intro unat_add_le) simp
  then have un: "unat ?n = unat (size_b c) + unat (size_b t) + unat H"
    using nwb ub by (simp add: unat_add_le)
  have 1: "unat a + unat H + unat ?n < 2 ^ 64" using un nwb ub by simp
  have 2: "rest = [] \<or> hd rest = a + H + ?n" using r unfolding b by (simp add: algebra_simps)
  have 3: "contiguous H (h(a \<mapsto> c\<lparr>next_b := nx, size_b := ?n\<rparr>)) rest"
    using ctr fr by (simp add: contiguous_upd_other)
  have 4: "?n AND 7 = 0" by fact
  show ?thesis unfolding n contiguous_Cons using 1 2 3 4 by simp
qed

subsection \<open>The search and what follows it, on a list\<close>

lemma coalesce_loop_contiguous:
  "length as = n \<Longrightarrow> chain (heap s) cur as \<Longrightarrow>
   \<exists>h' as'. coalesce_loop bm s cur = Some (Inr (s\<lparr>heap := h'\<rparr>)) \<and> chain h' cur as' \<and>
      no_adjacent_free h' as' \<and> set as' \<subseteq> set as \<and>
      (\<forall>a. a \<notin> set as \<longrightarrow> h' a = heap s a) \<and> is_free h' cur = is_free (heap s) cur \<and>
      (contiguous (SIZEOF_STRUCT_BLOCK_META bm) (heap s) as \<longrightarrow>
         contiguous (SIZEOF_STRUCT_BLOCK_META bm) h' as')"
proof (induction n arbitrary: s cur as rule: less_induct)
  case (less n)
  note ch = less.prems(2)
  let ?H = "SIZEOF_STRUCT_BLOCK_META bm"
  show ?case
  proof (cases as)
    case Nil
    with ch have "cur = 0" by simp
    then have "coalesce_loop bm s cur = Some (Inr (s\<lparr>heap := heap s\<rparr>))"
      by (subst coalesce_loop.simps) simp
    moreover have "chain (heap s) cur []" using \<open>cur = 0\<close> by simp
    ultimately show ?thesis by (intro exI [of _ "heap s"] exI [of _ "[]"]) simp
  next
    case (Cons a as1)
    with ch obtain c where c: "cur = a" "a \<noteq> 0" "heap s a = Some c" "chain (heap s) (next_b c) as1"
      by (auto split: option.splits)
    show ?thesis
    proof (cases as1)
      case Nil
      with c have "next_b c = 0" by simp
      with c have "coalesce_loop bm s cur = Some (Inr (s\<lparr>heap := heap s\<rparr>))"
        by (subst coalesce_loop.simps) (simp add: load_def)
      moreover have "chain (heap s) cur [a]" using c \<open>next_b c = 0\<close> by simp
      ultimately show ?thesis using Cons Nil
        by (intro exI [of _ "heap s"] exI [of _ "[a]"]) simp
    next
      case as1: (Cons b rest)
      with c obtain t where t: "next_b c = b" "b \<noteq> 0" "heap s b = Some t"
          "chain (heap s) (next_b t) rest"
        by (auto split: option.splits)
      from chain_distinct [OF ch] Cons as1 have dist: "a \<noteq> b" "a \<notin> set rest" "b \<notin> set rest"
        by auto
      have as: "as = a # b # rest" using Cons as1 by simp
      show ?thesis
      proof (cases "status_b c = STATUS_FREE \<and> status_b t = STATUS_FREE")
        case True
        let ?c' = "c\<lparr>next_b := next_b t,
             size_b := ALIGN8 (size_b c + (size_b t + ?H))\<rparr>"
        let ?s1 = "store s a ?c'"
        have step: "coalesce_loop bm s cur = coalesce_loop bm ?s1 a"
          using c t True by (subst coalesce_loop.simps) (simp add: load_def)
        have h1: "heap ?s1 = (heap s)(a \<mapsto> ?c')" by (simp add: store_def)
        have ch1: "chain (heap ?s1) a (a # rest)"
          using c t dist by (simp add: h1 chain_upd_other)
        have len: "length (a # rest) < n" using less.prems(1) Cons as1 by simp
        from less.IH [OF len refl ch1] obtain h' as' where
          r: "coalesce_loop bm ?s1 a = Some (Inr (?s1\<lparr>heap := h'\<rparr>))"
            "chain h' a as'" "no_adjacent_free h' as'" "set as' \<subseteq> set (a # rest)"
            "\<forall>x. x \<notin> set (a # rest) \<longrightarrow> h' x = heap ?s1 x"
            "is_free h' a = is_free (heap ?s1) a"
            "contiguous ?H (heap ?s1) (a # rest) \<longrightarrow> contiguous ?H h' as'"
          by blast
        have 1: "coalesce_loop bm s cur = Some (Inr (s\<lparr>heap := h'\<rparr>))"
          using step r(1) by (simp add: store_def)
        have 2: "set as' \<subseteq> set as" using r(4) Cons as1 by auto
        have 3: "\<forall>x. x \<notin> set as \<longrightarrow> h' x = heap s x"
          using r(5) Cons as1 by (auto simp add: h1)
        have 4: "is_free h' cur = is_free (heap s) cur"
          using r(6) c True by (simp add: h1 is_free_def)
        have 5: "contiguous ?H (heap s) as \<longrightarrow> contiguous ?H h' as'"
        proof
          assume "contiguous ?H (heap s) as"
          then have "contiguous ?H (heap s) (a # b # rest)" by (simp only: as)
          from contiguous_merge [OF this c(3) t(3) SIZEOF_low dist(2)]
          have "contiguous ?H (heap ?s1) (a # rest)" by (simp only: h1)
          with r(7) show "contiguous ?H h' as'" by blast
        qed
        from 1 r(2) r(3) 2 3 4 5 c(1) show ?thesis by blast
      next
        case False
        have step: "coalesce_loop bm s cur = coalesce_loop bm s b"
          using c t False by (subst coalesce_loop.simps) (auto simp add: load_def)
        have chb: "chain (heap s) b (b # rest)" using t by simp
        have len: "length (b # rest) < n" using less.prems(1) Cons as1 by simp
        from less.IH [OF len refl chb] obtain h' as' where
          r: "coalesce_loop bm s b = Some (Inr (s\<lparr>heap := h'\<rparr>))"
            "chain h' b as'" "no_adjacent_free h' as'" "set as' \<subseteq> set (b # rest)"
            "\<forall>x. x \<notin> set (b # rest) \<longrightarrow> h' x = heap s x"
            "is_free h' b = is_free (heap s) b"
            "contiguous ?H (heap s) (b # rest) \<longrightarrow> contiguous ?H h' as'"
          by blast
        from r(2) t(2) obtain as2 where as2: "as' = b # as2" by (cases as') auto
        have ha: "h' a = Some c" using r(5) dist c by simp
        have 1: "coalesce_loop bm s cur = Some (Inr (s\<lparr>heap := h'\<rparr>))"
          using step r(1) by simp
        have 2: "chain h' cur (a # as')" using ha c t r(2) by simp
        have fa: "is_free h' a = (status_b c = STATUS_FREE)" using ha by (rule is_free_Some)
        have fb: "is_free h' b = (status_b t = STATUS_FREE)"
          using r(6) t(3) by (simp add: is_free_def)
        have 3: "no_adjacent_free h' (a # as')"
          using r(3) as2 fa fb False by simp
        have 4: "set (a # as') \<subseteq> set as" using r(4) Cons as1 by auto
        have 5: "\<forall>x. x \<notin> set as \<longrightarrow> h' x = heap s x" using r(5) Cons as1 by auto
        have 6: "is_free h' cur = is_free (heap s) cur"
          using fa c by (simp add: is_free_def)
        have 7: "contiguous ?H (heap s) as \<longrightarrow> contiguous ?H h' (a # as')"
        proof
          assume "contiguous ?H (heap s) as"
          then have ct: "contiguous ?H (heap s) (a # b # rest)" by (simp only: as)
          from ct c(3) have ac: "size_b c AND 7 = 0"
            and nwa: "unat a + unat ?H + unat (size_b c) < 2 ^ 64"
            and b: "b = a + ?H + size_b c" and ctb: "contiguous ?H (heap s) (b # rest)"
            by (simp_all only: contiguous_Cons list.sel) auto
          from r(7) ctb have "contiguous ?H h' (b # as2)" by (simp only: as2)
          with ha ac nwa b show "contiguous ?H h' (a # as')"
            unfolding as2 by (subst contiguous_Cons) simp
        qed
        from 1 2 3 4 5 6 7 show ?thesis by blast
      qed
    qed
  qed
qed

lemma coalesce_blocks_chain:
  assumes "chain (heap s) (mem_begin s) as"
    and "contiguous (SIZEOF_STRUCT_BLOCK_META bm) (heap s) as"
  shows "\<exists>h' as'. coalesce_blocks bm s =
             Some (Inr (s\<lparr>heap := h', mem_end := (if as' = [] then 0 else last as')\<rparr>)) \<and>
           chain h' (mem_begin s) as' \<and> no_adjacent_free h' as' \<and>
           contiguous (SIZEOF_STRUCT_BLOCK_META bm) h' as' \<and> set as' \<subseteq> set as"
proof -
  from coalesce_loop_contiguous [OF refl assms(1), of bm] assms(2) obtain h' as' where
    r: "coalesce_loop bm s (mem_begin s) = Some (Inr (s\<lparr>heap := h'\<rparr>))"
       "chain h' (mem_begin s) as'" "no_adjacent_free h' as'"
       "contiguous (SIZEOF_STRUCT_BLOCK_META bm) h' as'" "set as' \<subseteq> set as"
    by blast
  let ?s1 = "s\<lparr>heap := h'\<rparr>"
  have "chain (heap ?s1) (mem_begin ?s1) as'" using r(2) by simp
  from last_loop_chain [OF this]
  have l: "last_loop ?s1 (mem_begin ?s1) = Some (Inr (if as' = [] then 0 else last as'))" .
  have "coalesce_blocks bm s = Some (Inr (?s1\<lparr>mem_end := (if as' = [] then 0 else last as')\<rparr>))"
    unfolding coalesce_blocks_def r(1) by (simp only: bind_res_simps l)
  with r(2-5) show ?thesis by blast
qed

lemma best_loop_chain:
  "chain (heap s) cur as \<Longrightarrow>
   \<exists>b' c'. best_loop s sz cur best bfs cbu = Some (Inr (b', c')) \<and>
     ((b' = best \<and> c' = cbu) \<or> (b' \<in> set as \<and> c' = 1 \<and> is_free (heap s) b'))"
proof (induction as arbitrary: cur best bfs cbu)
  case Nil
  then have "cur = 0" by simp
  then have "best_loop s sz cur best bfs cbu = Some (Inr (best, cbu))"
    by (subst best_loop.simps) simp
  then show ?case by blast
next
  case (Cons a as)
  from Cons.prems obtain c where c: "cur = a" "a \<noteq> 0" "heap s a = Some c"
      "chain (heap s) (next_b c) as"
    by (auto split: option.splits)
  show ?case
  proof (cases "status_b c = STATUS_FREE \<and> sz \<le> size_b c \<and> (size_b c < bfs \<or> cbu = 0)")
    case True
    have step: "best_loop s sz cur best bfs cbu = best_loop s sz (next_b c) a (size_b c) 1"
      using c True by (subst best_loop.simps) (simp add: load_def)
    from Cons.IH [OF c(4), of a "size_b c" 1] obtain b' c' where
      r: "best_loop s sz (next_b c) a (size_b c) 1 = Some (Inr (b', c'))"
         "(b' = a \<and> c' = 1) \<or> (b' \<in> set as \<and> c' = 1 \<and> is_free (heap s) b')"
      by blast
    have fa: "is_free (heap s) a" using c(3) True by (simp add: is_free_def)
    from r(2) fa have "b' \<in> set (a # as) \<and> c' = 1 \<and> is_free (heap s) b'" by auto
    with step r(1) show ?thesis by simp
  next
    case False
    have step: "best_loop s sz cur best bfs cbu = best_loop s sz (next_b c) best bfs cbu"
      using c False by (subst best_loop.simps) (auto simp add: load_def)
    from Cons.IH [OF c(4), of best bfs cbu] obtain b' c' where
      r: "best_loop s sz (next_b c) best bfs cbu = Some (Inr (b', c'))"
         "(b' = best \<and> c' = cbu) \<or> (b' \<in> set as \<and> c' = 1 \<and> is_free (heap s) b')"
      by blast
    from r(2) have "(b' = best \<and> c' = cbu) \<or> (b' \<in> set (a # as) \<and> c' = 1 \<and> is_free (heap s) b')"
      by auto
    with step r(1) show ?thesis by simp
  qed
qed

lemma find_best_block_chain:
  assumes ch: "chain (heap s) (mem_begin s) as"
    and ct: "contiguous (SIZEOF_STRUCT_BLOCK_META bm) (heap s) as"
    and nz: "mem_begin s \<noteq> 0"
    and d0: "ALIGN8 (sz + SIZEOF_STRUCT_BLOCK_META bm) \<noteq> 0"
  shows "\<exists>r s2 as2. find_best_block bm sz s = Some (Inr (r, s2)) \<and>
           mem_begin s2 = mem_begin s \<and> chain (heap s2) (mem_begin s2) as2 \<and>
           (if r = 0
            then no_adjacent_free (heap s2) as2 \<and> as2 \<noteq> [] \<and> mem_end s2 = last as2 \<and>
                 set as2 \<subseteq> set as
            else \<exists>b. heap s2 r = Some b \<and>
                 no_adjacent_free ((heap s2)(r \<mapsto> b\<lparr>status_b := STATUS_ALLOC\<rparr>)) as2)"
proof -
  let ?H = "SIZEOF_STRUCT_BLOCK_META bm"
  let ?d = "ALIGN8 (sz + ?H)"
  from coalesce_blocks_chain [OF ch ct] obtain h1 as1 where
    cb: "coalesce_blocks bm s =
           Some (Inr (s\<lparr>heap := h1, mem_end := (if as1 = [] then 0 else last as1)\<rparr>))"
    and ch1: "chain h1 (mem_begin s) as1" and naf1: "no_adjacent_free h1 as1"
    and ct1: "contiguous ?H h1 as1" and sub: "set as1 \<subseteq> set as"
    by blast
  from chain_head [OF ch1 nz] obtain tl1 where as1: "as1 = mem_begin s # tl1" by blast
  then have ne: "as1 \<noteq> []" by simp
  let ?s1 = "s\<lparr>heap := h1, mem_end := last as1\<rparr>"
  from cb ne have cb': "coalesce_blocks bm s = Some (Inr ?s1)" by simp
  from ch1 as1 obtain c0 where c0: "h1 (mem_begin s) = Some c0" by (auto split: option.splits)
  have ld: "load ''curr'' ?s1 (mem_begin s) = Inr c0" using c0 nz by (simp add: load_def)
  let ?cbu = "if status_b c0 = STATUS_FREE then 1 else 0 :: size_t"
  have "chain (heap ?s1) (mem_begin s) as1" using ch1 by simp
  from best_loop_chain [OF this, of sz "mem_begin s" "size_b c0" ?cbu] obtain b' c' where
    bl: "best_loop ?s1 sz (mem_begin s) (mem_begin s) (size_b c0) ?cbu = Some (Inr (b', c'))"
    and dj: "(b' = mem_begin s \<and> c' = ?cbu) \<or> (b' \<in> set as1 \<and> c' = 1 \<and> is_free h1 b')"
    by auto
  have fb: "find_best_block bm sz s =
      bind_res
        (if c' = 1 then
           (case load ''best'' ?s1 b' of Inl e \<Rightarrow> Some (Inl e) | Inr b \<Rightarrow>
              if ?d < size_b b then split_block bm b' sz ?s1 else Some (Inr ?s1))
         else Some (Inr ?s1))
        (\<lambda>s2. Some (Inr (if c' = 1 then b' else 0, s2)))"
    using nz by (simp add: find_best_block_def cb' ld bl Let_def)
  show ?thesis
  proof (cases "c' = 1")
    case False
    with fb have "find_best_block bm sz s = Some (Inr (0, ?s1))" by simp
    moreover have "mem_begin ?s1 = mem_begin s" by simp
    moreover have "chain (heap ?s1) (mem_begin ?s1) as1" using ch1 by simp
    moreover have "no_adjacent_free (heap ?s1) as1" using naf1 by simp
    moreover have "mem_end ?s1 = last as1" by simp
    ultimately show ?thesis using ne sub by (intro exI [of _ 0] exI [of _ ?s1] exI [of _ as1]) simp
  next
    case hit: True
    have in1: "b' \<in> set as1" and fr: "is_free h1 b'"
    proof -
      from dj hit have "b' \<in> set as1 \<and> is_free h1 b'"
      proof (elim disjE conjE)
        assume a: "b' = mem_begin s" "c' = ?cbu"
        with hit have "status_b c0 = STATUS_FREE" by (auto split: if_splits)
        with c0 a(1) as1 show ?thesis by (simp add: is_free_def)
      qed simp
      then show "b' \<in> set as1" "is_free h1 b'" by simp_all
    qed
    from chain_nonzero [OF ch1] in1 have bnz: "b' \<noteq> 0" by auto
    from fr obtain b where b: "h1 b' = Some b" "status_b b = STATUS_FREE"
      by (auto simp add: is_free_def split: option.splits)
    have lb: "load ''best'' ?s1 b' = Inr b" using b bnz by (simp add: load_def)
    from in1 obtain xs ys where dec: "as1 = xs @ b' # ys" by (auto simp add: in_set_conv_decomp)
    from chain_distinct [OF ch1] have dist: "distinct (xs @ b' # ys)" by (simp only: dec)
    show ?thesis
    proof (cases "?d < size_b b")
      case False
      with fb hit lb have "find_best_block bm sz s = Some (Inr (b', ?s1))" by simp
      moreover have "mem_begin ?s1 = mem_begin s" by simp
      moreover have "chain (heap ?s1) (mem_begin ?s1) as1" using ch1 by simp
      moreover have "heap ?s1 b' = Some b" using b by simp
      moreover have "no_adjacent_free ((heap ?s1)(b' \<mapsto> b\<lparr>status_b := STATUS_ALLOC\<rparr>)) as1"
        using no_adjacent_free_clear [OF dist, of h1 "b\<lparr>status_b := STATUS_ALLOC\<rparr>"] naf1 dec by simp
      ultimately show ?thesis using bnz
        by (intro exI [of _ b'] exI [of _ ?s1] exI [of _ as1]) simp
    next
      case split: True
      let ?sp = "b' + ?d"
      let ?S = "\<lparr>size_b = ALIGN8 (size_b b - ?d), status_b = STATUS_FREE, next_b = next_b b\<rparr>"
      let ?B = "b\<lparr>next_b := ?sp, size_b := ALIGN8 sz\<rparr>"
      from split have "unat ?d < unat ?H + unat (size_b b)" by (simp add: word_less_nat_alt)
      from contiguous_fresh [OF ct1 [unfolded dec] b(1) d0 this]
      have fresh: "?sp \<notin> set (xs @ b' # ys)" and spnz: "?sp \<noteq> 0" by simp_all
      from fresh have spb: "?sp \<noteq> b'" by auto
      have "heap ?s1 b' = Some b" using b by simp
      from split_block_eq [OF this bnz spnz spb] obtain s2 where
        s2: "split_block bm b' sz ?s1 = Some (Inr s2)"
            "heap s2 = h1(?sp \<mapsto> ?S, b' \<mapsto> ?B)" "mem_begin s2 = mem_begin s"
        by auto
      from fb hit lb split s2(1) have 1: "find_best_block bm sz s = Some (Inr (b', s2))" by simp
      have "chain (h1(?sp \<mapsto> ?S, b' \<mapsto> ?B)) (mem_begin s) (xs @ b' # ?sp # ys)"
        by (rule chain_split [OF ch1 [unfolded dec] b(1) fresh spnz]) simp_all
      then have 2: "chain (heap s2) (mem_begin s2) (xs @ b' # ?sp # ys)"
        by (simp only: s2)
      have 3: "heap s2 b' = Some ?B" by (simp add: s2)
      have "no_adjacent_free (h1(?sp \<mapsto> ?S, b' \<mapsto> ?B\<lparr>status_b := STATUS_ALLOC\<rparr>))
              (xs @ b' # ?sp # ys)"
        by (rule no_adjacent_free_split [OF dist fresh naf1 [unfolded dec] fr]) simp_all
      then have 4: "no_adjacent_free ((heap s2)(b' \<mapsto> ?B\<lparr>status_b := STATUS_ALLOC\<rparr>))
              (xs @ b' # ?sp # ys)"
        by (simp add: s2)
      from 1 s2(3) 2 3 4 bnz show ?thesis
        by (intro exI [of _ b'] exI [of _ s2] exI [of _ "xs @ b' # ?sp # ys"]) simp
    qed
  qed
qed

lemma os_malloc_rest_chain:
  assumes ch: "chain (heap s) (mem_begin s) as" and naf: "no_adjacent_free (heap s) as"
    and ne: "as \<noteq> []" and me: "mem_end s = last as" and nz: "mem_begin s \<noteq> 0"
    and sb: "sbrk_ret k \<noteq> - 1" "sbrk_ret k \<noteq> 0" "sbrk_ret k \<notin> set as"
    and mm: "mmap_ret k \<noteq> - 1" "mmap_ret k \<noteq> 0" "mmap_ret k \<notin> set as"
  shows "\<exists>p s' as'. os_malloc_rest bm sa T k s = Some (Inr (p, s')) \<and>
           chain (heap s') (mem_begin s') as' \<and> no_adjacent_free (heap s') as'"
proof -
  let ?H = "SIZEOF_STRUCT_BLOCK_META bm"
  from ne obtain xs l where dec: "as = xs @ [l]" by (cases as rule: rev_cases) auto
  have me: "mem_end s = l" using me dec by simp
  from chain_nonzero [OF ch] dec have lnz: "l \<noteq> 0" by auto
  from chain_suffix [OF ch [unfolded dec]] obtain e where e: "heap s l = Some e" "next_b e = 0"
    by (auto split: option.splits)
  from chain_distinct [OF ch] have dist: "distinct (xs @ [l])" by (simp only: dec [symmetric])
  have ld: "load ''mem_end'' s (mem_end s) = Inr e" using e lnz me by (simp add: load_def)
  show ?thesis
  proof (cases "status_b e = STATUS_FREE \<and> size_b e < sa \<and> sa < T - ?H")
    case True
    let ?E = "e\<lparr>size_b := ALIGN8 sa, status_b := STATUS_ALLOC\<rparr>"
    let ?s' = "store (s\<lparr>calls := calls s @ [Sbrk (ALIGN8 (sa - size_b e))]\<rparr>) l ?E"
    have 1: "os_malloc_rest bm sa T k s = Some (Inr (l + bm, ?s'))"
      using True lnz me ld sb(1) by (simp add: os_malloc_rest_def Let_def)
    have h: "heap ?s' = (heap s)(l \<mapsto> ?E)" by (simp add: store_def)
    have mb: "mem_begin ?s' = mem_begin s" by (simp add: store_def)
    have "chain ((heap s)(l \<mapsto> ?E)) (mem_begin s) as"
      by (rule chain_upd_same_next [OF ch e(1)]) simp
    then have 2: "chain (heap ?s') (mem_begin ?s') as" by (simp only: h mb)
    have "no_adjacent_free ((heap s)(l \<mapsto> ?E)) (xs @ [l])"
      by (rule no_adjacent_free_clear [OF dist naf [unfolded dec]]) simp
    then have 3: "no_adjacent_free (heap ?s') as" by (simp only: h dec [symmetric])
    from 1 2 3 show ?thesis by blast
  next
    case False
    let ?nb = "if ALIGN8 sa < T - ?H then sbrk_ret k else mmap_ret k"
    let ?N = "\<lparr>size_b = ALIGN8 sa,
               status_b = (if ALIGN8 sa < T - ?H then STATUS_ALLOC else STATUS_MAPPED),
               next_b = 0\<rparr>"
    let ?s1 = "s\<lparr>heap := (heap s)(?nb \<mapsto> ?N),
                 calls := calls s @
                   [(if ALIGN8 sa < T - ?H then Sbrk else Mmap) (ALIGN8 (sa + ?H))]\<rparr>"
    have cr: "create_block bm sa (T - ?H) k s = Some (Inr (?nb, ?s1))"
      by (rule create_block_eq [OF sb(1,2) mm(1,2)])
    have nbz: "?nb \<noteq> 0" using sb(2) mm(2) by simp
    have nbf: "?nb \<notin> set as" using sb(3) mm(3) by simp
    then have nbl: "?nb \<noteq> l" using dec by auto
    have fr: "os_malloc_rest bm sa T k s = os_malloc_fresh bm sa T k s"
      using False lnz me ld by (auto simp add: os_malloc_rest_def Let_def)
    show ?thesis
    proof (cases "ALIGN8 sa < T - ?H")
      case heap: True
      let ?E = "e\<lparr>next_b := sbrk_ret k\<rparr>"
      let ?s2 = "(store ?s1 l ?E)\<lparr>mem_end := sbrk_ret k\<rparr>"
      have 1: "os_malloc_fresh bm sa T k s = Some (Inr (sbrk_ret k + bm, ?s2))"
        using heap nz sb(2) nbl e(1) lnz me
        by (simp add: os_malloc_fresh_def cr load_def Let_def)
      have h: "heap ?s2 = (heap s)(sbrk_ret k \<mapsto> ?N, l \<mapsto> ?E)"
        using heap by (simp add: store_def)
      have mb: "mem_begin ?s2 = mem_begin s" by (simp add: store_def)
      have f: "sbrk_ret k \<notin> set (xs @ [l])" using sb(3) dec by simp
      have "chain ((heap s)(sbrk_ret k \<mapsto> ?N, l \<mapsto> ?E)) (mem_begin s) (xs @ [l, sbrk_ret k])"
        by (rule chain_snoc [OF ch [unfolded dec] e(1) f sb(2)]) simp_all
      then have 2: "chain (heap ?s2) (mem_begin ?s2) (xs @ [l, sbrk_ret k])"
        by (simp only: h mb)
      have "no_adjacent_free ((heap s)(sbrk_ret k \<mapsto> ?N, l \<mapsto> ?E)) (xs @ [l, sbrk_ret k])"
        by (rule no_adjacent_free_snoc [OF dist f naf [unfolded dec] e(1)]) (simp_all add: heap)
      then have 3: "no_adjacent_free (heap ?s2) (xs @ [l, sbrk_ret k])" by (simp only: h)
      from fr 1 2 3 show ?thesis by (simp only:) blast
    next
      case mapped: False
      have 1: "os_malloc_fresh bm sa T k s = Some (Inr (mmap_ret k + bm, ?s1))"
        using mapped nz mm(2) by (simp add: os_malloc_fresh_def cr load_def Let_def)
      have h: "heap ?s1 = (heap s)(mmap_ret k \<mapsto> ?N)" using mapped by simp
      have mb: "mem_begin ?s1 = mem_begin s" by simp
      have 2: "chain (heap ?s1) (mem_begin ?s1) as"
        unfolding h mb using ch mm(3) by (simp add: chain_upd_other)
      have 3: "no_adjacent_free (heap ?s1) as"
        unfolding h using naf mm(3) by (simp add: no_adjacent_free_upd_other)
      from fr 1 2 3 show ?thesis by (simp only:) blast
    qed
  qed
qed


section \<open>Evaluating the concrete runs\<close>

lemmas run_defs =
  os_malloc_def os_malloc_aux_def os_malloc_rest_def os_malloc_fresh_def prealloc_def
  create_block_def init_block_def store_def load_def ALIGN8_def SIZEOF_STRUCT_BLOCK_META_def
  MMAP_THRESHOLD_def find_best_block_def coalesce_blocks_def split_block_def os_free_def
  Let_def coalesce_loop.simps last_loop.simps best_loop.simps os_realloc_def
  realloc_loop.simps os_calloc_def memset_def clobber_def

lemmas state_defs =
  hdr_def kern0_def kern1_def fresh_arena_def ar_prealloc_def ar_released_def ar_split_def
  ar_three_def ar_head_free_def ar_head_reused_def ar_full_def ar_no_fit_def ar_two_free_def
  ar_stale_tail_def ar_appended_def ar_zero_block_def ar_zero_freed_def

lemma run_prealloc: "os_malloc 32 8 kern0 fresh_arena = Some (Inr (4128, ar_prealloc))"
  by (simp add: run_defs state_defs)

lemma run_release_first: "os_free 32 4128 kern0 ar_prealloc = Some (Inr ar_released)"
  by (simp add: run_defs state_defs)

lemma run_reuse: "os_malloc 32 8 kern0 ar_released = Some (Inr (4128, ar_split))"
  by (simp add: run_defs state_defs)

lemma run_second: "os_malloc 32 8 kern0 ar_split = Some (Inr (4168, ar_three))"
  by (simp add: run_defs state_defs)

lemma run_release_head: "os_free 32 4128 kern0 ar_three = Some (Inr ar_head_free)"
  by (simp add: run_defs state_defs)

lemma run_fill: "os_malloc 32 131000 kern0 ar_split = Some (Inr (4168, ar_full))"
  by (simp add: run_defs state_defs)

lemma run_release_small: "os_free 32 4128 kern0 ar_full = Some (Inr ar_no_fit)"
  by (simp add: run_defs state_defs)

lemma run_append:
  "os_malloc_aux 32 8 MMAP_THRESHOLD kern1 ar_prealloc = Some (Inr (135200, ar_appended))"
  by (simp add: run_defs state_defs)

lemma run_zero_block: "os_malloc 32 (- 1) kern1 ar_prealloc = Some (Inr (135200, ar_zero_block))"
  by (simp add: run_defs state_defs)

lemma run_mapped: "os_malloc 32 131072 kern0 fresh_arena = Some (Inr (1048608, ar_mapped))"
  by (simp add: run_defs state_defs ar_mapped_def)

text \<open>
  \<open>ar_head_free\<close> (a free first block of 8 bytes, a block in use, a large free block) is
  reached from the empty arena by allocate(8), release, allocate(8), allocate(8), release of
  the first pointer.
\<close>

lemma reach_head_free:
  "os_malloc 32 8 kern0 fresh_arena = Some (Inr (4128, ar_prealloc)) \<and>
   os_free 32 4128 kern0 ar_prealloc = Some (Inr ar_released) \<and>
   os_malloc 32 8 kern0 ar_released = Some (Inr (4128, ar_split)) \<and>
   os_malloc 32 8 kern0 ar_split = Some (Inr (4168, ar_three)) \<and>
   os_free 32 4128 kern0 ar_three = Some (Inr ar_head_free)"
  by (simp only: run_prealloc run_release_first run_reuse run_second run_release_head)

text \<open>
  \<open>ar_no_fit\<close> (a free first block of 8 bytes and a block in use, nothing else) is reached
  from the empty arena by allocate(8), release, allocate(8), allocate(131000), release of the
  first pointer.
\<close>

lemma reach_no_fit:
  "os_malloc 32 8 kern0 fresh_arena = Some (Inr (4128, ar_prealloc)) \<and>
   os_free 32 4128 kern0 ar_prealloc = Some (Inr ar_released) \<and>
   os_malloc 32 8 kern0 ar_released = Some (Inr (4128, ar_split)) \<and>
   os_malloc 32 131000 kern0 ar_split = Some (Inr (4168, ar_full)) \<and>
   os_free 32 4128 kern0 ar_full = Some (Inr ar_no_fit)"
  by (simp only: run_prealloc run_release_first run_reuse run_fill run_release_small)

section \<open>Fresh blocks for requests that do not wrap around\<close>

text \<open>
  For a request n of at most \<open>2^64 - 8\<close> bytes \<open>ALIGN8\<close> is the round-up \<open>align8\<close> of the
  specification (\<open>ALIGN8_unat\<close>), and the comparisons that choose between the heap and a
  mapping can be read over the natural numbers. With the system calls succeeding:
  \<^verbatim>\<open>create_block(n, T)\<close> extends the heap and sets \<^verbatim>\<open>ALLOC\<close> exactly when \<open>align8 n < T\<close>, and
  otherwise maps and sets \<^verbatim>\<open>MAPPED\<close>, with size \<open>align8 n\<close> and a null link. With a header that
  is not empty and not larger than \<^verbatim>\<open>MMAP_THRESHOLD\<close>, a fresh block requested by allocate is
  mapped exactly when \<open>align8 n + H\<close> is at least \<^verbatim>\<open>MMAP_THRESHOLD\<close>: this is stated for
  allocate on the empty arena, which otherwise gets the preallocated block; for the
  fresh-block step of allocate on a non-empty list (lines 222 to 239), which otherwise links
  a heap block of size \<open>align8 n\<close> behind the tail; and for allocate itself on a non-empty
  list, when the best-fit search finds nothing or is not run and the tail cannot be expanded.
\<close>

lemma provisioning_below_wrap:
  assumes nw: "unat n + 7 < 2 ^ 64"
    and sb: "sbrk_ret k \<noteq> - 1" "sbrk_ret k \<noteq> 0"
    and mm: "mmap_ret k \<noteq> - 1" "mmap_ret k \<noteq> 0"
    and H0: "SIZEOF_STRUCT_BLOCK_META bm \<noteq> 0"
    and HT: "unat (SIZEOF_STRUCT_BLOCK_META bm) \<le> unat MMAP_THRESHOLD"
  shows
    "create_block bm n T k s =
       Some (Inr (if align8 (unat n) < unat T then sbrk_ret k else mmap_ret k,
         s\<lparr>heap := (heap s)((if align8 (unat n) < unat T then sbrk_ret k else mmap_ret k) \<mapsto>
               \<lparr>size_b = of_nat (align8 (unat n)),
                status_b = (if align8 (unat n) < unat T then STATUS_ALLOC else STATUS_MAPPED),
                next_b = 0\<rparr>),
            calls := calls s @
               [(if align8 (unat n) < unat T then Sbrk else Mmap)
                  (ALIGN8 (n + SIZEOF_STRUCT_BLOCK_META bm))]\<rparr>)) \<and>
     (n \<noteq> 0 \<and> mem_begin s0 = 0 \<and> mem_end s0 = 0 \<longrightarrow>
        os_malloc bm n k s0 =
          (if align8 (unat n) + unat (SIZEOF_STRUCT_BLOCK_META bm) < unat MMAP_THRESHOLD
           then Some (Inr (sbrk_ret k + bm,
                  s0\<lparr>heap := (heap s0)(sbrk_ret k \<mapsto>
                         \<lparr>size_b = MMAP_THRESHOLD - SIZEOF_STRUCT_BLOCK_META bm,
                          status_b = STATUS_ALLOC, next_b = 0\<rparr>),
                      calls := calls s0 @ [Sbrk MMAP_THRESHOLD],
                      mem_begin := sbrk_ret k, mem_end := sbrk_ret k\<rparr>))
           else Some (Inr (mmap_ret k + bm,
                  s0\<lparr>heap := (heap s0)(mmap_ret k \<mapsto>
                         \<lparr>size_b = of_nat (align8 (unat n)),
                          status_b = STATUS_MAPPED, next_b = 0\<rparr>),
                      calls := calls s0 @
                         [Mmap (ALIGN8 (ALIGN8 n + SIZEOF_STRUCT_BLOCK_META bm))]\<rparr>)))) \<and>
     (mem_begin s1 \<noteq> 0 \<and> mem_end s1 \<noteq> 0 \<and> mem_end s1 \<noteq> sbrk_ret k \<and>
      heap s1 (mem_end s1) = Some e \<longrightarrow>
        os_malloc_fresh bm (ALIGN8 n) MMAP_THRESHOLD k s1 =
          (if align8 (unat n) + unat (SIZEOF_STRUCT_BLOCK_META bm) < unat MMAP_THRESHOLD
           then Some (Inr (sbrk_ret k + bm,
                  s1\<lparr>heap := (heap s1)
                         (sbrk_ret k \<mapsto>
                            \<lparr>size_b = of_nat (align8 (unat n)),
                             status_b = STATUS_ALLOC, next_b = 0\<rparr>,
                          mem_end s1 \<mapsto> e\<lparr>next_b := sbrk_ret k\<rparr>),
                      calls := calls s1 @
                         [Sbrk (ALIGN8 (ALIGN8 n + SIZEOF_STRUCT_BLOCK_META bm))],
                      mem_end := sbrk_ret k\<rparr>))
           else Some (Inr (mmap_ret k + bm,
                  s1\<lparr>heap := (heap s1)(mmap_ret k \<mapsto>
                         \<lparr>size_b = of_nat (align8 (unat n)),
                          status_b = STATUS_MAPPED, next_b = 0\<rparr>),
                      calls := calls s1 @
                         [Mmap (ALIGN8 (ALIGN8 n + SIZEOF_STRUCT_BLOCK_META bm))]\<rparr>)))) \<and>
     (n \<noteq> 0 \<and> mem_begin s2 \<noteq> 0 \<and>
      (if ALIGN8 n < MMAP_THRESHOLD
       then find_best_block bm (ALIGN8 n) s2 = Some (Inr (0, s3)) else s3 = s2) \<and>
      mem_begin s3 \<noteq> 0 \<and> mem_end s3 \<noteq> 0 \<and> mem_end s3 \<noteq> sbrk_ret k \<and>
      heap s3 (mem_end s3) = Some e3 \<and>
      \<not> (status_b e3 = STATUS_FREE \<and> size_b e3 < ALIGN8 n) \<longrightarrow>
        os_malloc bm n k s2 =
          (if align8 (unat n) + unat (SIZEOF_STRUCT_BLOCK_META bm) < unat MMAP_THRESHOLD
           then Some (Inr (sbrk_ret k + bm,
                  s3\<lparr>heap := (heap s3)
                         (sbrk_ret k \<mapsto>
                            \<lparr>size_b = of_nat (align8 (unat n)),
                             status_b = STATUS_ALLOC, next_b = 0\<rparr>,
                          mem_end s3 \<mapsto> e3\<lparr>next_b := sbrk_ret k\<rparr>),
                      calls := calls s3 @
                         [Sbrk (ALIGN8 (ALIGN8 n + SIZEOF_STRUCT_BLOCK_META bm))],
                      mem_end := sbrk_ret k\<rparr>))
           else Some (Inr (mmap_ret k + bm,
                  s3\<lparr>heap := (heap s3)(mmap_ret k \<mapsto>
                         \<lparr>size_b = of_nat (align8 (unat n)),
                          status_b = STATUS_MAPPED, next_b = 0\<rparr>),
                      calls := calls s3 @
                         [Mmap (ALIGN8 (ALIGN8 n + SIZEOF_STRUCT_BLOCK_META bm))]\<rparr>))))"
proof -
  let ?H = "SIZEOF_STRUCT_BLOCK_META bm"
  have u: "unat (ALIGN8 n) = align8 (unat n)" by (rule ALIGN8_unat [OF nw])
  have e1: "ALIGN8 n = of_nat (align8 (unat n))" by (simp add: u [symmetric])
  have c1: "ALIGN8 n < T \<longleftrightarrow> align8 (unat n) < unat T"
    by (simp add: word_less_nat_alt u)
  have c2: "ALIGN8 n < MMAP_THRESHOLD - ?H \<longleftrightarrow> align8 (unat n) + unat ?H < unat MMAP_THRESHOLD"
    unfolding less_sub [OF HT] u ..
  have idem: "ALIGN8 (ALIGN8 n) = ALIGN8 n" by (rule ALIGN8_idem)
  have p1: "create_block bm n T k s =
       Some (Inr (if align8 (unat n) < unat T then sbrk_ret k else mmap_ret k,
         s\<lparr>heap := (heap s)((if align8 (unat n) < unat T then sbrk_ret k else mmap_ret k) \<mapsto>
               \<lparr>size_b = of_nat (align8 (unat n)),
                status_b = (if align8 (unat n) < unat T then STATUS_ALLOC else STATUS_MAPPED),
                next_b = 0\<rparr>),
            calls := calls s @
               [(if align8 (unat n) < unat T then Sbrk else Mmap) (ALIGN8 (n + ?H))]\<rparr>))"
    unfolding create_block_eq [OF sb mm] c1 unfolding e1 ..
  have p2: "n \<noteq> 0 \<and> mem_begin s0 = 0 \<and> mem_end s0 = 0 \<longrightarrow>
        os_malloc bm n k s0 =
          (if align8 (unat n) + unat ?H < unat MMAP_THRESHOLD
           then Some (Inr (sbrk_ret k + bm,
                  s0\<lparr>heap := (heap s0)(sbrk_ret k \<mapsto>
                         \<lparr>size_b = MMAP_THRESHOLD - ?H,
                          status_b = STATUS_ALLOC, next_b = 0\<rparr>),
                      calls := calls s0 @ [Sbrk MMAP_THRESHOLD],
                      mem_begin := sbrk_ret k, mem_end := sbrk_ret k\<rparr>))
           else Some (Inr (mmap_ret k + bm,
                  s0\<lparr>heap := (heap s0)(mmap_ret k \<mapsto>
                         \<lparr>size_b = of_nat (align8 (unat n)),
                          status_b = STATUS_MAPPED, next_b = 0\<rparr>),
                      calls := calls s0 @ [Mmap (ALIGN8 (ALIGN8 n + ?H))]\<rparr>)))"
  proof
    assume a: "n \<noteq> 0 \<and> mem_begin s0 = 0 \<and> mem_end s0 = 0"
    with mm(2) have "os_malloc bm n k s0 = (if ALIGN8 n < MMAP_THRESHOLD - ?H then prealloc bm k s0
       else Some (Inr (mmap_ret k + bm,
              s0\<lparr>heap := (heap s0)(mmap_ret k \<mapsto>
                     \<lparr>size_b = ALIGN8 n, status_b = STATUS_MAPPED, next_b = 0\<rparr>),
                  calls := calls s0 @ [Mmap (ALIGN8 (ALIGN8 n + ?H))]\<rparr>)))"
      by (simp add: os_malloc_def os_malloc_aux_def os_malloc_rest_def os_malloc_fresh_def
          create_block_eq [OF sb mm] idem load_def Let_def)
    then show "os_malloc bm n k s0 =
          (if align8 (unat n) + unat ?H < unat MMAP_THRESHOLD
           then Some (Inr (sbrk_ret k + bm,
                  s0\<lparr>heap := (heap s0)(sbrk_ret k \<mapsto>
                         \<lparr>size_b = MMAP_THRESHOLD - ?H,
                          status_b = STATUS_ALLOC, next_b = 0\<rparr>),
                      calls := calls s0 @ [Sbrk MMAP_THRESHOLD],
                      mem_begin := sbrk_ret k, mem_end := sbrk_ret k\<rparr>))
           else Some (Inr (mmap_ret k + bm,
                  s0\<lparr>heap := (heap s0)(mmap_ret k \<mapsto>
                         \<lparr>size_b = of_nat (align8 (unat n)),
                          status_b = STATUS_MAPPED, next_b = 0\<rparr>),
                      calls := calls s0 @ [Mmap (ALIGN8 (ALIGN8 n + ?H))]\<rparr>)))"
      unfolding c2 prealloc_eq [OF sb H0 HT] e1 [symmetric] .
  qed
  have fresh: "mem_begin t \<noteq> 0 \<and> mem_end t \<noteq> 0 \<and> mem_end t \<noteq> sbrk_ret k \<and>
      heap t (mem_end t) = Some et \<longrightarrow>
        os_malloc_fresh bm (ALIGN8 n) MMAP_THRESHOLD k t =
          (if align8 (unat n) + unat ?H < unat MMAP_THRESHOLD
           then Some (Inr (sbrk_ret k + bm,
                  t\<lparr>heap := (heap t)
                         (sbrk_ret k \<mapsto>
                            \<lparr>size_b = of_nat (align8 (unat n)),
                             status_b = STATUS_ALLOC, next_b = 0\<rparr>,
                          mem_end t \<mapsto> et\<lparr>next_b := sbrk_ret k\<rparr>),
                      calls := calls t @ [Sbrk (ALIGN8 (ALIGN8 n + ?H))],
                      mem_end := sbrk_ret k\<rparr>))
           else Some (Inr (mmap_ret k + bm,
                  t\<lparr>heap := (heap t)(mmap_ret k \<mapsto>
                         \<lparr>size_b = of_nat (align8 (unat n)),
                          status_b = STATUS_MAPPED, next_b = 0\<rparr>),
                      calls := calls t @ [Mmap (ALIGN8 (ALIGN8 n + ?H))]\<rparr>)))" for t et
  proof
    assume a: "mem_begin t \<noteq> 0 \<and> mem_end t \<noteq> 0 \<and> mem_end t \<noteq> sbrk_ret k \<and>
      heap t (mem_end t) = Some et"
    then have "os_malloc_fresh bm (ALIGN8 n) MMAP_THRESHOLD k t =
      (if ALIGN8 n < MMAP_THRESHOLD - ?H
       then Some (Inr (sbrk_ret k + bm,
                      t\<lparr>heap := (heap t)
                             (sbrk_ret k \<mapsto>
                                \<lparr>size_b = ALIGN8 n, status_b = STATUS_ALLOC, next_b = 0\<rparr>,
                              mem_end t \<mapsto> et\<lparr>next_b := sbrk_ret k\<rparr>),
                          calls := calls t @ [Sbrk (ALIGN8 (ALIGN8 n + ?H))],
                          mem_end := sbrk_ret k\<rparr>))
       else Some (Inr (mmap_ret k + bm,
              t\<lparr>heap := (heap t)(mmap_ret k \<mapsto>
                     \<lparr>size_b = ALIGN8 n, status_b = STATUS_MAPPED, next_b = 0\<rparr>),
                  calls := calls t @ [Mmap (ALIGN8 (ALIGN8 n + ?H))]\<rparr>)))"
      using sb(2) mm(2)
      by (simp add: os_malloc_fresh_def create_block_eq [OF sb mm] idem load_def store_def Let_def)
    then show "os_malloc_fresh bm (ALIGN8 n) MMAP_THRESHOLD k t =
          (if align8 (unat n) + unat ?H < unat MMAP_THRESHOLD
           then Some (Inr (sbrk_ret k + bm,
                  t\<lparr>heap := (heap t)
                         (sbrk_ret k \<mapsto>
                            \<lparr>size_b = of_nat (align8 (unat n)),
                             status_b = STATUS_ALLOC, next_b = 0\<rparr>,
                          mem_end t \<mapsto> et\<lparr>next_b := sbrk_ret k\<rparr>),
                      calls := calls t @ [Sbrk (ALIGN8 (ALIGN8 n + ?H))],
                      mem_end := sbrk_ret k\<rparr>))
           else Some (Inr (mmap_ret k + bm,
                  t\<lparr>heap := (heap t)(mmap_ret k \<mapsto>
                         \<lparr>size_b = of_nat (align8 (unat n)),
                          status_b = STATUS_MAPPED, next_b = 0\<rparr>),
                      calls := calls t @ [Mmap (ALIGN8 (ALIGN8 n + ?H))]\<rparr>)))"
      unfolding c2 e1 [symmetric] .
  qed
  have p3: "mem_begin s1 \<noteq> 0 \<and> mem_end s1 \<noteq> 0 \<and> mem_end s1 \<noteq> sbrk_ret k \<and>
      heap s1 (mem_end s1) = Some e \<longrightarrow>
        os_malloc_fresh bm (ALIGN8 n) MMAP_THRESHOLD k s1 =
          (if align8 (unat n) + unat ?H < unat MMAP_THRESHOLD
           then Some (Inr (sbrk_ret k + bm,
                  s1\<lparr>heap := (heap s1)
                         (sbrk_ret k \<mapsto>
                            \<lparr>size_b = of_nat (align8 (unat n)),
                             status_b = STATUS_ALLOC, next_b = 0\<rparr>,
                          mem_end s1 \<mapsto> e\<lparr>next_b := sbrk_ret k\<rparr>),
                      calls := calls s1 @ [Sbrk (ALIGN8 (ALIGN8 n + ?H))],
                      mem_end := sbrk_ret k\<rparr>))
           else Some (Inr (mmap_ret k + bm,
                  s1\<lparr>heap := (heap s1)(mmap_ret k \<mapsto>
                         \<lparr>size_b = of_nat (align8 (unat n)),
                          status_b = STATUS_MAPPED, next_b = 0\<rparr>),
                      calls := calls s1 @ [Mmap (ALIGN8 (ALIGN8 n + ?H))]\<rparr>)))"
    by (rule fresh)
  have p4: "n \<noteq> 0 \<and> mem_begin s2 \<noteq> 0 \<and>
      (if ALIGN8 n < MMAP_THRESHOLD
       then find_best_block bm (ALIGN8 n) s2 = Some (Inr (0, s3)) else s3 = s2) \<and>
      mem_begin s3 \<noteq> 0 \<and> mem_end s3 \<noteq> 0 \<and> mem_end s3 \<noteq> sbrk_ret k \<and>
      heap s3 (mem_end s3) = Some e3 \<and>
      \<not> (status_b e3 = STATUS_FREE \<and> size_b e3 < ALIGN8 n) \<longrightarrow>
        os_malloc bm n k s2 =
          (if align8 (unat n) + unat ?H < unat MMAP_THRESHOLD
           then Some (Inr (sbrk_ret k + bm,
                  s3\<lparr>heap := (heap s3)
                         (sbrk_ret k \<mapsto>
                            \<lparr>size_b = of_nat (align8 (unat n)),
                             status_b = STATUS_ALLOC, next_b = 0\<rparr>,
                          mem_end s3 \<mapsto> e3\<lparr>next_b := sbrk_ret k\<rparr>),
                      calls := calls s3 @ [Sbrk (ALIGN8 (ALIGN8 n + ?H))],
                      mem_end := sbrk_ret k\<rparr>))
           else Some (Inr (mmap_ret k + bm,
                  s3\<lparr>heap := (heap s3)(mmap_ret k \<mapsto>
                         \<lparr>size_b = of_nat (align8 (unat n)),
                          status_b = STATUS_MAPPED, next_b = 0\<rparr>),
                      calls := calls s3 @ [Mmap (ALIGN8 (ALIGN8 n + ?H))]\<rparr>)))"
  proof
    assume a: "n \<noteq> 0 \<and> mem_begin s2 \<noteq> 0 \<and>
      (if ALIGN8 n < MMAP_THRESHOLD
       then find_best_block bm (ALIGN8 n) s2 = Some (Inr (0, s3)) else s3 = s2) \<and>
      mem_begin s3 \<noteq> 0 \<and> mem_end s3 \<noteq> 0 \<and> mem_end s3 \<noteq> sbrk_ret k \<and>
      heap s3 (mem_end s3) = Some e3 \<and>
      \<not> (status_b e3 = STATUS_FREE \<and> size_b e3 < ALIGN8 n)"
    then have "os_malloc bm n k s2 = os_malloc_rest bm (ALIGN8 n) MMAP_THRESHOLD k s3"
      by (auto simp add: os_malloc_def os_malloc_aux_def Let_def split: if_splits)
    also have "\<dots> = os_malloc_fresh bm (ALIGN8 n) MMAP_THRESHOLD k s3"
      using a by (auto simp add: os_malloc_rest_def load_def Let_def)
    finally have eq: "os_malloc bm n k s2 = os_malloc_fresh bm (ALIGN8 n) MMAP_THRESHOLD k s3" .
    from a have b: "mem_begin s3 \<noteq> 0 \<and> mem_end s3 \<noteq> 0 \<and> mem_end s3 \<noteq> sbrk_ret k \<and>
      heap s3 (mem_end s3) = Some e3" by simp
    show "os_malloc bm n k s2 =
          (if align8 (unat n) + unat ?H < unat MMAP_THRESHOLD
           then Some (Inr (sbrk_ret k + bm,
                  s3\<lparr>heap := (heap s3)
                         (sbrk_ret k \<mapsto>
                            \<lparr>size_b = of_nat (align8 (unat n)),
                             status_b = STATUS_ALLOC, next_b = 0\<rparr>,
                          mem_end s3 \<mapsto> e3\<lparr>next_b := sbrk_ret k\<rparr>),
                      calls := calls s3 @ [Sbrk (ALIGN8 (ALIGN8 n + ?H))],
                      mem_end := sbrk_ret k\<rparr>))
           else Some (Inr (mmap_ret k + bm,
                  s3\<lparr>heap := (heap s3)(mmap_ret k \<mapsto>
                         \<lparr>size_b = of_nat (align8 (unat n)),
                          status_b = STATUS_MAPPED, next_b = 0\<rparr>),
                      calls := calls s3 @ [Mmap (ALIGN8 (ALIGN8 n + ?H))]\<rparr>)))"
      unfolding eq by (rule fresh [THEN mp, OF b])
  qed
  from p1 p2 p3 p4 show ?thesis by (intro conjI)
qed

text \<open>
  Requests of 8 and of 131072 bytes, with a header of 32 bytes and the program break at
  135168: on the empty arena, and behind the preallocated block of \<open>ar_prealloc\<close>.
\<close>

lemma provisioning_below_wrap_runs:
  "unat (8 :: size_t) + 7 < 2 ^ 64 \<and>
   sbrk_ret kern1 \<noteq> - 1 \<and> sbrk_ret kern1 \<noteq> 0 \<and> mmap_ret kern1 \<noteq> - 1 \<and> mmap_ret kern1 \<noteq> 0 \<and>
   SIZEOF_STRUCT_BLOCK_META 32 \<noteq> 0 \<and>
   unat (SIZEOF_STRUCT_BLOCK_META 32) \<le> unat MMAP_THRESHOLD \<and>
   (8 :: size_t) \<noteq> 0 \<and> mem_begin fresh_arena = 0 \<and> mem_end fresh_arena = 0 \<and>
   mem_begin ar_prealloc \<noteq> 0 \<and> mem_end ar_prealloc \<noteq> 0 \<and>
   mem_end ar_prealloc \<noteq> sbrk_ret kern1 \<and>
   heap ar_prealloc (mem_end ar_prealloc) = Some (hdr 131040 STATUS_ALLOC 0) \<and>
   ALIGN8 8 < MMAP_THRESHOLD \<and>
   find_best_block 32 (ALIGN8 8) ar_prealloc = Some (Inr (0, ar_prealloc)) \<and>
   \<not> (status_b (hdr 131040 STATUS_ALLOC 0) = STATUS_FREE \<and>
      size_b (hdr 131040 STATUS_ALLOC 0) < ALIGN8 8) \<and>
   create_block 32 8 (MMAP_THRESHOLD - SIZEOF_STRUCT_BLOCK_META 32) kern1 ar_prealloc =
     Some (Inr (135168, ar_created)) \<and>
   os_malloc 32 8 kern1 fresh_arena = Some (Inr (135200, ar_prealloc_high)) \<and>
   os_malloc_fresh 32 (ALIGN8 8) MMAP_THRESHOLD kern1 ar_prealloc =
     Some (Inr (135200, ar_appended)) \<and>
   os_malloc 32 8 kern1 ar_prealloc = Some (Inr (135200, ar_appended)) \<and>
   unat (131072 :: size_t) + 7 < 2 ^ 64 \<and> (131072 :: size_t) \<noteq> 0 \<and>
   \<not> ALIGN8 131072 < MMAP_THRESHOLD \<and>
   os_malloc 32 131072 kern1 fresh_arena = Some (Inr (1048608, ar_mapped)) \<and>
   os_malloc_fresh 32 (ALIGN8 131072) MMAP_THRESHOLD kern1 ar_prealloc =
     Some (Inr (1048608,
       ar_prealloc\<lparr>heap := (heap ar_prealloc)(1048576 \<mapsto> hdr 131072 STATUS_MAPPED 0),
                   calls := calls ar_prealloc @ [Mmap 131104]\<rparr>)) \<and>
   os_malloc 32 131072 kern1 ar_prealloc =
     Some (Inr (1048608,
       ar_prealloc\<lparr>heap := (heap ar_prealloc)(1048576 \<mapsto> hdr 131072 STATUS_MAPPED 0),
                   calls := calls ar_prealloc @ [Mmap 131104]\<rparr>))"
proof -
  have fb: "find_best_block 32 (ALIGN8 8) ar_prealloc = Some (Inr (0, ar_prealloc))"
    by (simp add: run_defs state_defs)
  have al: "ALIGN8 8 < MMAP_THRESHOLD" "\<not> ALIGN8 131072 < MMAP_THRESHOLD"
    by (simp_all add: ALIGN8_def MMAP_THRESHOLD_def)
  from provisioning_below_wrap
    [where n = 8 and k = kern1 and bm = 32 and s = ar_prealloc
       and T = "MMAP_THRESHOLD - SIZEOF_STRUCT_BLOCK_META 32" and ?s0.0 = fresh_arena
       and ?s1.0 = ar_prealloc and e = "hdr 131040 STATUS_ALLOC 0"
       and ?s2.0 = ar_prealloc and ?s3.0 = ar_prealloc and ?e3.0 = "hdr 131040 STATUS_ALLOC 0"]
    provisioning_below_wrap
    [where n = 131072 and k = kern1 and bm = 32 and s = ar_prealloc
       and T = "MMAP_THRESHOLD - SIZEOF_STRUCT_BLOCK_META 32" and ?s0.0 = fresh_arena
       and ?s1.0 = ar_prealloc and e = "hdr 131040 STATUS_ALLOC 0"
       and ?s2.0 = ar_prealloc and ?s3.0 = ar_prealloc and ?e3.0 = "hdr 131040 STATUS_ALLOC 0"]
    fb al
  show ?thesis
    by (simp add: state_defs ar_mapped_def ar_prealloc_high_def ar_created_def align8_def
      SIZEOF_STRUCT_BLOCK_META_def ALIGN8_def MMAP_THRESHOLD_def)
qed

section \<open>The claims\<close>

text \<open>
  C1: allocate(n) returns null exactly when n is not positive, and otherwise a non-null,
  8-byte aligned payload whose block has a size field of at least n.

  The last part fails on the code. After allocate(8), release, allocate(8), allocate(8) and
  the release of the first pointer, the list starts with a free block of 8 bytes.
  allocate(16) then returns the payload of that block: \<^verbatim>\<open>find_best_block\<close> starts with the
  first block as its candidate as soon as it is free, whatever its size, and no later block
  can replace it. The block handed out has a size field of 8, less than the 16 requested.
\<close>

theorem os_malloc_returns_short_block:
  "os_malloc 32 8 kern0 fresh_arena = Some (Inr (4128, ar_prealloc)) \<and>
   os_free 32 4128 kern0 ar_prealloc = Some (Inr ar_released) \<and>
   os_malloc 32 8 kern0 ar_released = Some (Inr (4128, ar_split)) \<and>
   os_malloc 32 8 kern0 ar_split = Some (Inr (4168, ar_three)) \<and>
   os_free 32 4128 kern0 ar_three = Some (Inr ar_head_free) \<and>
   os_malloc 32 16 kern0 ar_head_free = Some (Inr (4128, ar_head_reused)) \<and>
   map_option size_b (heap ar_head_reused (4128 - 32)) = Some 8 \<and>
   map_option status_b (heap ar_head_reused (4128 - 32)) = Some STATUS_ALLOC"
proof -
  have "os_malloc 32 16 kern0 ar_head_free = Some (Inr (4128, ar_head_reused))"
    by (simp add: run_defs state_defs)
  moreover have "map_option size_b (heap ar_head_reused (4128 - 32)) = Some 8"
    by (simp add: state_defs)
  moreover have "map_option status_b (heap ar_head_reused (4128 - 32)) = Some STATUS_ALLOC"
    by (simp add: state_defs)
  ultimately show ?thesis using reach_head_free by simp
qed

text \<open>
  C2: the best-fit search returns the free block whose size is the smallest one that is at
  least the request (the earlier block on a tie), and returns no block when no free block is
  large enough.

  Both parts fail on the code when the first block of the list is free and too small. In
  \<open>ar_head_free\<close> the list is 4096 (free, 8 bytes), 4136 (in use), 4176 (free, 130960 bytes):
  a search for 16 bytes returns 4096, not 4176. In \<open>ar_no_fit\<close> the list is 4096 (free, 8
  bytes), 4136 (in use): no free block holds 16 bytes, and the search still returns 4096.
  Both states are reached from the empty arena (\<open>reach_head_free\<close>, \<open>reach_no_fit\<close>).
\<close>

theorem find_best_block_returns_unfit_head:
  "find_best_block 32 16 ar_head_free = Some (Inr (4096, ar_head_free)) \<and>
   chain (heap ar_head_free) (mem_begin ar_head_free) [4096, 4136, 4176] \<and>
   heap ar_head_free 4096 = Some (hdr 8 STATUS_FREE 4136) \<and>
   heap ar_head_free 4176 = Some (hdr 130960 STATUS_FREE 0) \<and>
   find_best_block 32 16 ar_no_fit = Some (Inr (4096, ar_no_fit)) \<and>
   chain (heap ar_no_fit) (mem_begin ar_no_fit) [4096, 4136] \<and>
   heap ar_no_fit 4096 = Some (hdr 8 STATUS_FREE 4136) \<and>
   heap ar_no_fit 4136 = Some (hdr 131000 STATUS_ALLOC 0)"
proof -
  have "find_best_block 32 16 ar_head_free = Some (Inr (4096, ar_head_free))"
    by (simp add: run_defs state_defs)
  moreover have "find_best_block 32 16 ar_no_fit = Some (Inr (4096, ar_no_fit))"
    by (simp add: run_defs state_defs)
  moreover have "chain (heap ar_head_free) (mem_begin ar_head_free) [4096, 4136, 4176]"
    by (simp add: state_defs)
  moreover have "chain (heap ar_no_fit) (mem_begin ar_no_fit) [4096, 4136]"
    by (simp add: state_defs)
  ultimately show ?thesis by (simp add: ar_head_free_def ar_no_fit_def)
qed

text \<open>
  C3: on an empty arena, allocate(100) performs exactly one heap extension of
  \<^verbatim>\<open>MMAP_THRESHOLD\<close> bytes and returns a payload whose block has size 104, followed by a free
  block of size \<^verbatim>\<open>MMAP_THRESHOLD\<close> - 104 - 2 H which is the tail.

  The code does not split the preallocated block: \<^verbatim>\<open>prealloc\<close> returns the whole block. As
  amended: on an empty arena, allocate(100) performs exactly one heap extension of
  \<^verbatim>\<open>MMAP_THRESHOLD\<close> bytes and returns the payload of a block of size \<^verbatim>\<open>MMAP_THRESHOLD\<close> - H,
  in use, with a null link, which is both head and tail.
\<close>

theorem os_malloc_100_on_empty_arena:
  assumes "mem_begin s = 0" "mem_end s = 0"
    and "sbrk_ret k \<noteq> - 1" "sbrk_ret k \<noteq> 0"
    and "0 < SIZEOF_STRUCT_BLOCK_META bm" "SIZEOF_STRUCT_BLOCK_META bm < 130968"
  shows "os_malloc bm 100 k s =
     Some (Inr (sbrk_ret k + bm,
       s\<lparr>heap := (heap s)(sbrk_ret k \<mapsto>
             \<lparr>size_b = MMAP_THRESHOLD - SIZEOF_STRUCT_BLOCK_META bm,
              status_b = STATUS_ALLOC, next_b = 0\<rparr>),
          calls := calls s @ [Sbrk MMAP_THRESHOLD],
          mem_begin := sbrk_ret k, mem_end := sbrk_ret k\<rparr>))"
proof -
  let ?H = "SIZEOF_STRUCT_BLOCK_META bm"
  have hdr_al: "?H AND 7 = 0" by (simp add: SIZEOF_STRUCT_BLOCK_META_def ALIGN8_low)
  have thr_al: "MMAP_THRESHOLD AND 7 = 0" by (simp add: MMAP_THRESHOLD_def)
  have a1: "ALIGN8 (MMAP_THRESHOLD - ?H) = MMAP_THRESHOLD - ?H"
    by (rule ALIGN8_id) (rule and7_diff [OF thr_al hdr_al])
  have le: "unat ?H \<le> unat MMAP_THRESHOLD"
    using assms(6) by (simp add: MMAP_THRESHOLD_def word_less_nat_alt)
  have a2: "(104::size_t) < MMAP_THRESHOLD - ?H"
    unfolding less_sub [OF le] using assms(6) by (simp add: MMAP_THRESHOLD_def word_less_nat_alt)
  have a3: "MMAP_THRESHOLD - ?H < MMAP_THRESHOLD"
    using assms(5) le by (simp add: word_less_nat_alt unat_sub word_le_nat_alt)
  have a4: "ALIGN8 MMAP_THRESHOLD = MMAP_THRESHOLD"
    by (simp add: ALIGN8_id thr_al)
  have a5: "ALIGN8 100 = 104" by (simp add: ALIGN8_def)
  show ?thesis
    using assms(1-4) a2 a3
    by (simp add: os_malloc_def os_malloc_aux_def os_malloc_rest_def os_malloc_fresh_def
        prealloc_def create_block_sbrk a1 a4 a5 Let_def)
qed

text \<open>A header of 32 bytes, the empty arena, the break at 4096.\<close>

theorem os_malloc_100_on_empty_arena_witness:
  "mem_begin fresh_arena = 0 \<and> mem_end fresh_arena = 0 \<and>
   sbrk_ret kern0 \<noteq> - 1 \<and> sbrk_ret kern0 \<noteq> 0 \<and>
   0 < SIZEOF_STRUCT_BLOCK_META 32 \<and> SIZEOF_STRUCT_BLOCK_META 32 < 130968 \<and>
   os_malloc 32 100 kern0 fresh_arena = Some (Inr (4128, ar_prealloc))"
  using os_malloc_100_on_empty_arena [where s = fresh_arena and k = kern0 and bm = 32]
  by (simp add: state_defs SIZEOF_STRUCT_BLOCK_META_def ALIGN8_def MMAP_THRESHOLD_def)

text \<open>
  The claim as stated fails at this input: the block returned has size 131040, not 104, its
  link is null, and it is the tail.
\<close>

theorem os_malloc_100_not_split:
  "os_malloc 32 100 kern0 fresh_arena = Some (Inr (4128, ar_prealloc)) \<and>
   map_option size_b (heap ar_prealloc (4128 - 32)) \<noteq> Some 104 \<and>
   heap ar_prealloc (4128 - 32) = Some (hdr 131040 STATUS_ALLOC 0) \<and>
   mem_end ar_prealloc = 4128 - 32"
proof -
  have "os_malloc 32 100 kern0 fresh_arena = Some (Inr (4128, ar_prealloc))"
    by (simp add: run_defs state_defs)
  then show ?thesis by (simp add: ar_prealloc_def hdr_def)
qed

text \<open>
  C4: after every public operation, walking from the head along the links visits every heap
  block once and ends at the tail; the tail is the last block reachable from the head, also
  after the forward coalescing of resize has absorbed the old tail.

  The code leaves the tail pointer behind. From the empty arena, allocate(100),
  resize(p, 8), resize(p, 64): the second resize absorbs the free block at 4136, which was
  the tail, and splits again; \<^verbatim>\<open>split_block\<close> updates \<^verbatim>\<open>mem_end\<close> only when it is the block
  being split. The list is then 4096, 4192, and \<^verbatim>\<open>mem_end\<close> is still 4136.
\<close>

theorem os_realloc_leaves_stale_mem_end:
  "os_malloc 32 100 kern0 fresh_arena = Some (Inr (4128, ar_prealloc)) \<and>
   os_realloc 32 4128 8 kern0 ar_prealloc = Some (Inr (4128, ar_split)) \<and>
   os_realloc 32 4128 64 kern0 ar_split = Some (Inr (4128, ar_stale_tail)) \<and>
   chain (heap ar_stale_tail) (mem_begin ar_stale_tail) [4096, 4192] \<and>
   mem_end ar_stale_tail = 4136 \<and>
   mem_end ar_stale_tail \<noteq> last [4096, 4192]"
proof -
  have "os_malloc 32 100 kern0 fresh_arena = Some (Inr (4128, ar_prealloc))"
    by (simp add: run_defs state_defs)
  moreover have "os_realloc 32 4128 8 kern0 ar_prealloc = Some (Inr (4128, ar_split))"
    by (simp add: run_defs state_defs)
  moreover have "os_realloc 32 4128 64 kern0 ar_split = Some (Inr (4128, ar_stale_tail))"
    by (simp add: run_defs state_defs)
  moreover have "chain (heap ar_stale_tail) (mem_begin ar_stale_tail) [4096, 4192]"
    by (simp add: state_defs)
  ultimately show ?thesis by (simp add: ar_stale_tail_def)
qed

text \<open>
  C5: at the entry and at the exit of every public operation, no two adjacent heap blocks
  are both free.

  Release only changes the status of its block, and a resize that shrinks a block splits it
  without looking at the block behind it, so two adjacent free blocks exist at the exit of
  both, and at the entry of whatever is called next. The operation that restores the
  property is allocate. As amended: when allocate is called on a non-empty list with a
  request that is not 0 and, rounded up, below \<^verbatim>\<open>MMAP_THRESHOLD\<close>, so that the best-fit
  search runs, and the list ends at the null pointer, its blocks lie one behind the other
  with sizes that are multiples of 8, the header is not empty and not larger than
  \<^verbatim>\<open>MMAP_THRESHOLD\<close>, and the system calls succeed with addresses that are not null and not
  in the list, then allocate returns, and at its exit the list still ends at the null
  pointer and no two adjacent blocks of it are both free, whatever the statuses were at its
  entry.
\<close>

theorem os_malloc_no_adjacent_free:
  assumes ch: "chain (heap s) (mem_begin s) as"
    and ct: "contiguous (SIZEOF_STRUCT_BLOCK_META bm) (heap s) as"
    and nz: "mem_begin s \<noteq> 0" and n0: "n \<noteq> 0" and sm: "ALIGN8 n < MMAP_THRESHOLD"
    and H0: "SIZEOF_STRUCT_BLOCK_META bm \<noteq> 0"
    and HT: "unat (SIZEOF_STRUCT_BLOCK_META bm) \<le> unat MMAP_THRESHOLD"
    and sb: "sbrk_ret k \<noteq> - 1" "sbrk_ret k \<noteq> 0" "sbrk_ret k \<notin> set as"
    and mm: "mmap_ret k \<noteq> - 1" "mmap_ret k \<noteq> 0" "mmap_ret k \<notin> set as"
  shows "\<exists>p s' as'. os_malloc bm n k s = Some (Inr (p, s')) \<and>
           chain (heap s') (mem_begin s') as' \<and> no_adjacent_free (heap s') as'"
proof -
  let ?sa = "ALIGN8 n"
  have d0: "ALIGN8 (?sa + SIZEOF_STRUCT_BLOCK_META bm) \<noteq> 0"
    by (rule split_offset [OF sm ALIGN8_low H0 HT])
  have om: "os_malloc bm n k s =
      bind_res (find_best_block bm ?sa s) (\<lambda>(new_block, s1).
        if new_block \<noteq> 0 then
          (case load ''new_block'' s1 new_block of Inl e \<Rightarrow> Some (Inl e) | Inr nb \<Rightarrow>
             Some (Inr (new_block + bm, store s1 new_block (nb\<lparr>status_b := STATUS_ALLOC\<rparr>))))
        else os_malloc_rest bm ?sa MMAP_THRESHOLD k s1)"
    using nz n0 sm by (simp add: os_malloc_def os_malloc_aux_def Let_def)
  from find_best_block_chain [OF ch ct nz d0] obtain r s2 as2 where
    fb: "find_best_block bm ?sa s = Some (Inr (r, s2))"
    and mb: "mem_begin s2 = mem_begin s" and ch2: "chain (heap s2) (mem_begin s2) as2"
    and post: "if r = 0
            then no_adjacent_free (heap s2) as2 \<and> as2 \<noteq> [] \<and> mem_end s2 = last as2 \<and>
                 set as2 \<subseteq> set as
            else \<exists>b. heap s2 r = Some b \<and>
                 no_adjacent_free ((heap s2)(r \<mapsto> b\<lparr>status_b := STATUS_ALLOC\<rparr>)) as2"
    by blast
  show ?thesis
  proof (cases "r = 0")
    case True
    with post have naf: "no_adjacent_free (heap s2) as2" and ne: "as2 \<noteq> []"
      and me: "mem_end s2 = last as2" and sub: "set as2 \<subseteq> set as"
      by simp_all
    have nz2: "mem_begin s2 \<noteq> 0" using nz mb by simp
    have f: "sbrk_ret k \<notin> set as2" "mmap_ret k \<notin> set as2" using sb(3) mm(3) sub by auto
    from os_malloc_rest_chain [OF ch2 naf ne me nz2 sb(1,2) f(1) mm(1,2) f(2)]
    obtain p s' as' where "os_malloc_rest bm ?sa MMAP_THRESHOLD k s2 = Some (Inr (p, s'))"
      "chain (heap s') (mem_begin s') as'" "no_adjacent_free (heap s') as'"
      by blast
    moreover have "os_malloc bm n k s = os_malloc_rest bm ?sa MMAP_THRESHOLD k s2"
      unfolding om fb using True by simp
    ultimately show ?thesis by (simp only:) blast
  next
    case False
    with post obtain b where b: "heap s2 r = Some b"
      "no_adjacent_free ((heap s2)(r \<mapsto> b\<lparr>status_b := STATUS_ALLOC\<rparr>)) as2"
      by auto
    let ?s' = "store s2 r (b\<lparr>status_b := STATUS_ALLOC\<rparr>)"
    have 1: "os_malloc bm n k s = Some (Inr (r + bm, ?s'))"
      unfolding om fb using False b(1) by (simp add: load_def)
    have h: "heap ?s' = (heap s2)(r \<mapsto> b\<lparr>status_b := STATUS_ALLOC\<rparr>)" by (simp add: store_def)
    have m: "mem_begin ?s' = mem_begin s2" by (simp add: store_def)
    have "chain ((heap s2)(r \<mapsto> b\<lparr>status_b := STATUS_ALLOC\<rparr>)) (mem_begin s2) as2"
      by (rule chain_upd_same_next [OF ch2 b(1)]) simp
    then have 2: "chain (heap ?s') (mem_begin ?s') as2" by (simp only: h m)
    have 3: "no_adjacent_free (heap ?s') as2" using b(2) by (simp only: h)
    from 1 2 3 show ?thesis by blast
  qed
qed

text \<open>
  The two adjacent free blocks left by release: allocate(8) merges them, splits the merged
  block and hands out its first part.
\<close>

theorem os_malloc_no_adjacent_free_witness:
  "chain (heap ar_two_free) (mem_begin ar_two_free) [4096, 4136] \<and>
   contiguous (SIZEOF_STRUCT_BLOCK_META 32) (heap ar_two_free) [4096, 4136] \<and>
   \<not> no_adjacent_free (heap ar_two_free) [4096, 4136] \<and>
   mem_begin ar_two_free \<noteq> 0 \<and> (8 :: size_t) \<noteq> 0 \<and> ALIGN8 8 < MMAP_THRESHOLD \<and>
   SIZEOF_STRUCT_BLOCK_META 32 \<noteq> 0 \<and>
   unat (SIZEOF_STRUCT_BLOCK_META 32) \<le> unat MMAP_THRESHOLD \<and>
   sbrk_ret kern1 \<noteq> - 1 \<and> sbrk_ret kern1 \<noteq> 0 \<and> sbrk_ret kern1 \<notin> set [4096, 4136] \<and>
   mmap_ret kern1 \<noteq> - 1 \<and> mmap_ret kern1 \<noteq> 0 \<and> mmap_ret kern1 \<notin> set [4096, 4136] \<and>
   (\<exists>p s' as'. os_malloc 32 8 kern1 ar_two_free = Some (Inr (p, s')) \<and>
      chain (heap s') (mem_begin s') as' \<and> no_adjacent_free (heap s') as') \<and>
   os_malloc 32 8 kern1 ar_two_free = Some (Inr (4128, ar_split)) \<and>
   chain (heap ar_split) (mem_begin ar_split) [4096, 4136] \<and>
   no_adjacent_free (heap ar_split) [4096, 4136]"
proof -
  have 1: "chain (heap ar_two_free) (mem_begin ar_two_free) [4096, 4136]"
    by (simp add: state_defs)
  have 2: "contiguous (SIZEOF_STRUCT_BLOCK_META 32) (heap ar_two_free) [4096, 4136]"
    by (simp add: state_defs SIZEOF_STRUCT_BLOCK_META_def ALIGN8_def)
  have 3: "\<not> no_adjacent_free (heap ar_two_free) [4096, 4136]"
    by (simp add: state_defs is_free_def)
  have 4: "mem_begin ar_two_free \<noteq> 0" "(8 :: size_t) \<noteq> 0" "ALIGN8 8 < MMAP_THRESHOLD"
    "SIZEOF_STRUCT_BLOCK_META 32 \<noteq> 0" "unat (SIZEOF_STRUCT_BLOCK_META 32) \<le> unat MMAP_THRESHOLD"
    by (simp_all add: state_defs SIZEOF_STRUCT_BLOCK_META_def ALIGN8_def MMAP_THRESHOLD_def)
  have 5: "sbrk_ret kern1 \<noteq> - 1" "sbrk_ret kern1 \<noteq> 0" "sbrk_ret kern1 \<notin> set [4096, 4136]"
    "mmap_ret kern1 \<noteq> - 1" "mmap_ret kern1 \<noteq> 0" "mmap_ret kern1 \<notin> set [4096, 4136]"
    by (simp_all add: kern1_def)
  have 6: "os_malloc 32 8 kern1 ar_two_free = Some (Inr (4128, ar_split))"
    by (simp add: run_defs state_defs)
  have 7: "chain (heap ar_split) (mem_begin ar_split) [4096, 4136]"
    by (simp add: state_defs)
  have 8: "no_adjacent_free (heap ar_split) [4096, 4136]"
    by (simp add: state_defs is_free_def)
  from os_malloc_no_adjacent_free [OF 1 2 4 5] 1 2 3 4 5 6 7 8 show ?thesis by blast
qed

text \<open>
  The claim as stated fails at the exit of release, of an allocate that does not run the
  search, and of resize. After allocate(8), release, allocate(8), release the list is 4096,
  4136 and both blocks are free; allocate(131072), which is mapped, leaves them so. After
  allocate(8), resize(p, 1000), resize(p, 8) the list is 4096, 4136, 5128 and the last two
  blocks are free.
\<close>

theorem os_free_os_realloc_leave_adjacent_free:
  "os_malloc 32 8 kern0 fresh_arena = Some (Inr (4128, ar_prealloc)) \<and>
   os_free 32 4128 kern0 ar_prealloc = Some (Inr ar_released) \<and>
   os_malloc 32 8 kern0 ar_released = Some (Inr (4128, ar_split)) \<and>
   os_free 32 4128 kern0 ar_split = Some (Inr ar_two_free) \<and>
   chain (heap ar_two_free) (mem_begin ar_two_free) [4096, 4136] \<and>
   \<not> no_adjacent_free (heap ar_two_free) [4096, 4136] \<and>
   os_malloc 32 131072 kern0 ar_two_free = Some (Inr (1048608, ar_two_free_mapped)) \<and>
   chain (heap ar_two_free_mapped) (mem_begin ar_two_free_mapped) [4096, 4136] \<and>
   \<not> no_adjacent_free (heap ar_two_free_mapped) [4096, 4136] \<and>
   os_realloc 32 4128 1000 kern0 ar_prealloc = Some (Inr (4128, ar_shrunk)) \<and>
   chain (heap ar_shrunk) (mem_begin ar_shrunk) [4096, 5128] \<and>
   no_adjacent_free (heap ar_shrunk) [4096, 5128] \<and>
   os_realloc 32 4128 8 kern0 ar_shrunk = Some (Inr (4128, ar_shrunk_twice)) \<and>
   chain (heap ar_shrunk_twice) (mem_begin ar_shrunk_twice) [4096, 4136, 5128] \<and>
   \<not> no_adjacent_free (heap ar_shrunk_twice) [4096, 4136, 5128]"
proof -
  have "os_free 32 4128 kern0 ar_split = Some (Inr ar_two_free)"
    by (simp add: run_defs state_defs)
  moreover have "chain (heap ar_two_free) (mem_begin ar_two_free) [4096, 4136]"
    by (simp add: state_defs)
  moreover have "\<not> no_adjacent_free (heap ar_two_free) [4096, 4136]"
    by (simp add: state_defs is_free_def)
  moreover have "os_malloc 32 131072 kern0 ar_two_free = Some (Inr (1048608, ar_two_free_mapped))"
    by (simp add: run_defs state_defs ar_two_free_mapped_def)
  moreover have "chain (heap ar_two_free_mapped) (mem_begin ar_two_free_mapped) [4096, 4136]"
    by (simp add: ar_two_free_mapped_def hdr_def)
  moreover have "\<not> no_adjacent_free (heap ar_two_free_mapped) [4096, 4136]"
    by (simp add: ar_two_free_mapped_def hdr_def is_free_def)
  moreover have "os_realloc 32 4128 1000 kern0 ar_prealloc = Some (Inr (4128, ar_shrunk))"
    by (simp add: run_defs state_defs ar_shrunk_def)
  moreover have "chain (heap ar_shrunk) (mem_begin ar_shrunk) [4096, 5128]"
    by (simp add: ar_shrunk_def hdr_def)
  moreover have "no_adjacent_free (heap ar_shrunk) [4096, 5128]"
    by (simp add: ar_shrunk_def hdr_def is_free_def)
  moreover have "os_realloc 32 4128 8 kern0 ar_shrunk = Some (Inr (4128, ar_shrunk_twice))"
    by (simp add: run_defs state_defs ar_shrunk_def ar_shrunk_twice_def)
  moreover have "chain (heap ar_shrunk_twice) (mem_begin ar_shrunk_twice) [4096, 4136, 5128]"
    by (simp add: ar_shrunk_twice_def hdr_def)
  moreover have "\<not> no_adjacent_free (heap ar_shrunk_twice) [4096, 4136, 5128]"
    by (simp add: ar_shrunk_twice_def hdr_def is_free_def)
  ultimately show ?thesis using run_prealloc run_release_first run_reuse by simp
qed

text \<open>
  C6: \<^verbatim>\<open>create_block(n, T)\<close> extends the heap and sets the status \<^verbatim>\<open>ALLOC\<close> exactly when
  \<^verbatim>\<open>align8(n) < T\<close>, and otherwise maps memory and sets the status \<^verbatim>\<open>MAPPED\<close>; the size of the
  new block is \<^verbatim>\<open>align8(n)\<close> and its link is null; so a fresh block requested by allocate,
  which passes \<^verbatim>\<open>T = MMAP_THRESHOLD - H\<close>, is mapped exactly when \<^verbatim>\<open>align8(n) + H\<close> is at least
  \<^verbatim>\<open>MMAP_THRESHOLD\<close>.

  The code rounds up on \<^verbatim>\<open>size_t\<close> without a check, and for n above \<open>2^64 - 8\<close> the result
  wraps around to 0. For a request of \<open>2^64 - 1\<close> bytes behind the preallocated block,
  \<open>align8\<close> of the request is \<open>2^64\<close>, not below any threshold, yet \<^verbatim>\<open>create_block\<close> extends
  the heap by 32 bytes and returns a block in use of size 0, which allocate links behind the
  tail and hands out. The comment of \<^verbatim>\<open>create_block\<close> says that a size that is not smaller than
  the threshold is mapped. For every request of at most \<open>2^64 - 8\<close> bytes the code does what
  the claim says (\<open>provisioning_below_wrap\<close>).
\<close>

theorem os_malloc_wraps_large_request:
  "os_malloc 32 8 kern0 fresh_arena = Some (Inr (4128, ar_prealloc)) \<and>
   os_malloc 32 (- 1) kern1 ar_prealloc = Some (Inr (135200, ar_zero_block)) \<and>
   heap ar_zero_block (135200 - 32) = Some (hdr 0 STATUS_ALLOC 0) \<and>
   calls ar_zero_block = calls ar_prealloc @ [Sbrk 32] \<and>
   create_block 32 (ALIGN8 (- 1)) (MMAP_THRESHOLD - SIZEOF_STRUCT_BLOCK_META 32) kern1 ar_prealloc =
     Some (Inr (135168, ar_zero_created)) \<and>
   create_block 32 (- 1) (MMAP_THRESHOLD - SIZEOF_STRUCT_BLOCK_META 32) kern1 ar_prealloc =
     Some (Inr (135168, ar_zero_created)) \<and>
   align8 (unat (- 1 :: size_t)) = 2 ^ 64 \<and>
   \<not> align8 (unat (- 1 :: size_t)) < unat (MMAP_THRESHOLD - SIZEOF_STRUCT_BLOCK_META 32) \<and>
   unat MMAP_THRESHOLD \<le> align8 (unat (- 1 :: size_t)) + unat (SIZEOF_STRUCT_BLOCK_META 32)"
proof -
  have "create_block 32 (ALIGN8 (- 1)) (MMAP_THRESHOLD - SIZEOF_STRUCT_BLOCK_META 32) kern1 ar_prealloc =
     Some (Inr (135168, ar_zero_created))"
    by (simp add: run_defs state_defs ar_zero_created_def)
  moreover have "create_block 32 (- 1) (MMAP_THRESHOLD - SIZEOF_STRUCT_BLOCK_META 32) kern1 ar_prealloc =
     Some (Inr (135168, ar_zero_created))"
    by (simp add: run_defs state_defs ar_zero_created_def)
  moreover have "align8 (unat (- 1 :: size_t)) = 2 ^ 64"
    by (simp add: align8_def unsigned_minus_1_eq_mask mask_eq_exp_minus_1)
  moreover have "unat (MMAP_THRESHOLD - SIZEOF_STRUCT_BLOCK_META 32) = 131040"
    by (simp add: MMAP_THRESHOLD_def SIZEOF_STRUCT_BLOCK_META_def ALIGN8_def)
  moreover have "unat MMAP_THRESHOLD = 131072"
    by (simp add: MMAP_THRESHOLD_def)
  moreover have "heap ar_zero_block (135200 - 32) = Some (hdr 0 STATUS_ALLOC 0)"
    by (simp add: state_defs)
  moreover have "calls ar_zero_block = calls ar_prealloc @ [Sbrk 32]"
    by (simp add: state_defs)
  ultimately show ?thesis using run_prealloc run_zero_block by simp
qed

text \<open>
  C7: resize(null, n) is allocate(n); resize(p, 0) with p not null releases p and returns
  null; resize(p, n) on a block that is free returns null and changes nothing.

  Releasing p is spelled out: a block in use becomes free and nothing else changes; a mapped
  block is unmapped, with one call of \<^verbatim>\<open>munmap\<close> on the block and its size plus the header,
  and its header is no longer in memory; a block that is free is left as it is. resize(p, 0)
  returns null and ends in the state that release(p) ends in.
\<close>

theorem os_realloc_early_exits:
  "os_realloc bm 0 n k s = os_malloc bm n k s \<and>
   (pa \<noteq> 0 \<and> pa - bm \<noteq> 0 \<and> heap sa (pa - bm) = Some ba \<and> status_b ba = STATUS_ALLOC \<longrightarrow>
      os_free bm pa k sa =
        Some (Inr (sa\<lparr>heap := (heap sa)(pa - bm \<mapsto> ba\<lparr>status_b := STATUS_FREE\<rparr>)\<rparr>)) \<and>
      os_realloc bm pa 0 k sa =
        Some (Inr (0, sa\<lparr>heap := (heap sa)(pa - bm \<mapsto> ba\<lparr>status_b := STATUS_FREE\<rparr>)\<rparr>))) \<and>
   (pm \<noteq> 0 \<and> pm - bm \<noteq> 0 \<and> heap sm (pm - bm) = Some bmp \<and> status_b bmp = STATUS_MAPPED \<and>
    munmap_ret k \<noteq> - 1 \<longrightarrow>
      os_free bm pm k sm =
        Some (Inr (sm\<lparr>heap := (heap sm)(pm - bm := None),
                     calls := calls sm @
                       [Munmap (pm - bm) (size_b bmp + SIZEOF_STRUCT_BLOCK_META bm)]\<rparr>)) \<and>
      os_realloc bm pm 0 k sm =
        Some (Inr (0, sm\<lparr>heap := (heap sm)(pm - bm := None),
                        calls := calls sm @
                          [Munmap (pm - bm) (size_b bmp + SIZEOF_STRUCT_BLOCK_META bm)]\<rparr>))) \<and>
   (p \<noteq> 0 \<and> p - bm \<noteq> 0 \<and> heap s (p - bm) = Some b \<and> status_b b = STATUS_FREE \<longrightarrow>
      os_realloc bm p n k s = Some (Inr (0, s)) \<and>
      os_free bm p k s = Some (Inr s))"
  by (simp add: os_realloc_def os_free_def load_def store_def Let_def)

text \<open>
  The block in use of \<open>ar_prealloc\<close>, the mapped block of \<open>ar_mapped\<close>, and the free block
  of \<open>ar_released\<close>.
\<close>

theorem os_realloc_early_exits_witness:
  "(4128 :: addr) \<noteq> 0 \<and> (4128 :: addr) - 32 \<noteq> 0 \<and>
   heap ar_prealloc (4128 - 32) = Some (hdr 131040 STATUS_ALLOC 0) \<and>
   status_b (hdr 131040 STATUS_ALLOC 0) = STATUS_ALLOC \<and>
   (1048608 :: addr) \<noteq> 0 \<and> (1048608 :: addr) - 32 \<noteq> 0 \<and>
   heap ar_mapped (1048608 - 32) = Some (hdr 131072 STATUS_MAPPED 0) \<and>
   status_b (hdr 131072 STATUS_MAPPED 0) = STATUS_MAPPED \<and> munmap_ret kern0 \<noteq> - 1 \<and>
   heap ar_released (4128 - 32) = Some (hdr 131040 STATUS_FREE 0) \<and>
   status_b (hdr 131040 STATUS_FREE 0) = STATUS_FREE \<and>
   os_realloc 32 0 8 kern0 ar_released = os_malloc 32 8 kern0 ar_released \<and>
   os_free 32 4128 kern0 ar_prealloc = Some (Inr ar_released) \<and>
   os_realloc 32 4128 0 kern0 ar_prealloc = Some (Inr (0, ar_released)) \<and>
   os_free 32 1048608 kern0 ar_mapped = Some (Inr ar_unmapped) \<and>
   os_realloc 32 1048608 0 kern0 ar_mapped = Some (Inr (0, ar_unmapped)) \<and>
   os_realloc 32 4128 8 kern0 ar_released = Some (Inr (0, ar_released)) \<and>
   os_free 32 4128 kern0 ar_released = Some (Inr ar_released)"
  using os_realloc_early_exits
    [where bm = 32 and n = 8 and k = kern0 and s = ar_released and p = 4128
       and b = "hdr 131040 STATUS_FREE 0" and pa = 4128 and sa = ar_prealloc
       and ba = "hdr 131040 STATUS_ALLOC 0" and pm = 1048608 and sm = ar_mapped
       and bmp = "hdr 131072 STATUS_MAPPED 0"]
  by (simp add: ar_released_def ar_prealloc_def ar_mapped_def ar_unmapped_def hdr_def kern0_def
      SIZEOF_STRUCT_BLOCK_META_def ALIGN8_def)

text \<open>
  C8: zero_allocate(k, n) with k n > 0 returns a payload of at least k n bytes, all zero,
  with the page size as threshold.

  The block may be too small, for the same reason as in C1: in \<open>ar_head_free\<close>,
  zero_allocate(1, 16) returns the payload at 4128 of the block at 4096, whose size is 8.
  \<^verbatim>\<open>memset\<close> then writes 16 bytes, which run over the header of the next block at 4136.
\<close>

theorem os_calloc_returns_short_block:
  "(case os_calloc 32 1 16 kern0 ar_head_free of
      Some (Inr (p, s)) \<Rightarrow>
        p = 4128 \<and> heap s (4128 - 32) = Some (hdr 8 STATUS_ALLOC 4136) \<and> heap s 4136 = None
    | _ \<Rightarrow> False)"
  by (simp add: run_defs state_defs)

text \<open>
  C9: for a block b in use with payload p, resize(p, b.size) returns p and changes nothing.

  A block in use can have size 0: allocate(n) with n above \<open>2^64 - 8\<close> rounds the request
  to 0. For such a block resize(p, b.size) is resize(p, 0), which releases the block and
  returns null. As amended: for a block b in use whose size is not 0, resize(p, b.size)
  returns p and leaves the state unchanged.
\<close>

theorem os_realloc_same_size:
  assumes "p \<noteq> 0" "p - bm \<noteq> 0" "heap s (p - bm) = Some b"
    and "status_b b = STATUS_ALLOC \<or> status_b b = STATUS_MAPPED" "size_b b \<noteq> 0"
  shows "os_realloc bm p (size_b b) k s = Some (Inr (p, s))"
  using assms by (auto simp add: os_realloc_def load_def Let_def)

text \<open>The preallocated block of \<open>ar_prealloc\<close>, of size 131040.\<close>

theorem os_realloc_same_size_witness:
  "(4128 :: addr) \<noteq> 0 \<and> (4128 :: addr) - 32 \<noteq> 0 \<and>
   heap ar_prealloc (4128 - 32) = Some (hdr 131040 STATUS_ALLOC 0) \<and>
   (status_b (hdr 131040 STATUS_ALLOC 0) = STATUS_ALLOC \<or>
    status_b (hdr 131040 STATUS_ALLOC 0) = STATUS_MAPPED) \<and>
   size_b (hdr 131040 STATUS_ALLOC 0) \<noteq> 0 \<and>
   os_realloc 32 4128 131040 kern0 ar_prealloc = Some (Inr (4128, ar_prealloc))"
  using os_realloc_same_size
    [where p = 4128 and bm = 32 and s = ar_prealloc and b = "hdr 131040 STATUS_ALLOC 0"
       and k = kern0]
  by (simp add: ar_prealloc_def hdr_def)

text \<open>
  The claim as stated fails after allocate(8) and allocate(\<open>2^64 - 1\<close>) on the empty arena:
  the second block, at 135168, is in use and has size 0, and resize of its payload to that
  size returns null and leaves the block free.
\<close>

theorem os_realloc_same_size_zero:
  "os_malloc 32 8 kern0 fresh_arena = Some (Inr (4128, ar_prealloc)) \<and>
   os_malloc 32 (- 1) kern1 ar_prealloc = Some (Inr (135200, ar_zero_block)) \<and>
   heap ar_zero_block (135200 - 32) = Some (hdr 0 STATUS_ALLOC 0) \<and>
   os_realloc 32 135200 (size_b (hdr 0 STATUS_ALLOC 0)) kern1 ar_zero_block =
     Some (Inr (0, ar_zero_freed)) \<and>
   os_realloc 32 135200 (size_b (hdr 0 STATUS_ALLOC 0)) kern1 ar_zero_block \<noteq>
     Some (Inr (135200, ar_zero_block)) \<and>
   heap ar_zero_freed (135200 - 32) = Some (hdr 0 STATUS_FREE 0)"
proof -
  have "os_realloc 32 135200 (size_b (hdr 0 STATUS_ALLOC 0)) kern1 ar_zero_block =
      Some (Inr (0, ar_zero_freed))"
    by (simp add: run_defs state_defs)
  moreover have "heap ar_zero_block (135200 - 32) = Some (hdr 0 STATUS_ALLOC 0)"
    by (simp add: state_defs)
  moreover have "heap ar_zero_freed (135200 - 32) = Some (hdr 0 STATUS_FREE 0)"
    by (simp add: state_defs)
  ultimately show ?thesis using run_prealloc run_zero_block by simp
qed

text \<open>
  C10: when the last step of allocate has produced a heap block that is linked behind the
  tail, the tail pointer is not null, so the write \<^verbatim>\<open>mem_end->next\<close> never goes through a
  null pointer. This holds in every state, as long as the header is not larger than the
  threshold: a request that fits the heap either finds the list empty and is served by
  \<^verbatim>\<open>prealloc\<close>, or has run the best-fit search, which leaves \<^verbatim>\<open>mem_end\<close> on the last block.
\<close>

theorem os_malloc_aux_tail_non_null:
  assumes "unat (SIZEOF_STRUCT_BLOCK_META bm) \<le> unat T"
  shows "os_malloc_aux bm n T k s \<noteq> Some (Inl (NullDeref ''mem_end''))"
proof
  assume a: "os_malloc_aux bm n T k s = Some (Inl (NullDeref ''mem_end''))"
  let ?sa = "ALIGN8 n"
  let ?r = "Inl (NullDeref ''mem_end'') :: error + addr \<times> arena"
  have idem: "ALIGN8 ?sa = ?sa" by (rule ALIGN8_idem)
  have nz: "\<not> n \<le> 0" using a by (auto simp add: os_malloc_aux_def)
  show False
  proof (cases "mem_begin s \<noteq> 0 \<and> ?sa < T")
    case True
    with a nz have 1: "bind_res (find_best_block bm ?sa s) (\<lambda>(new_block, s1).
            if new_block \<noteq> 0 then
              (case load ''new_block'' s1 new_block of Inl e \<Rightarrow> Some (Inl e) | Inr nb \<Rightarrow>
                 Some (Inr (new_block + bm,
                   store s1 new_block (nb\<lparr>status_b := STATUS_ALLOC\<rparr>))))
            else os_malloc_rest bm ?sa T k s1) = Some ?r"
      by (simp add: os_malloc_aux_def Let_def)
    from bind_res_Some [OF 1] show False
    proof (elim disjE exE conjE)
      fix e assume "find_best_block bm ?sa s = Some (Inl e)" "?r = Inl e"
      with find_best_block_sound [of bm ?sa s "Inl e"] True show False by simp
    next
      fix x assume fb: "find_best_block bm ?sa s = Some (Inr x)"
        and 2: "(case x of (new_block, s1) \<Rightarrow>
            if new_block \<noteq> 0 then
              (case load ''new_block'' s1 new_block of Inl e \<Rightarrow> Some (Inl e) | Inr nb \<Rightarrow>
                 Some (Inr (new_block + bm,
                   store s1 new_block (nb\<lparr>status_b := STATUS_ALLOC\<rparr>))))
            else os_malloc_rest bm ?sa T k s1) = Some ?r"
      obtain nb s1 where x: "x = (nb, s1)" by (cases x)
      show False
      proof (cases "nb = 0")
        case False
        with 2 x show False by (auto simp add: load_def split: sum.splits if_splits option.splits)
      next
        case z: True
        with find_best_block_sound [OF fb] True x have "mem_end s1 \<noteq> 0" by simp
        moreover from 2 x z have "os_malloc_rest bm ?sa T k s1 = Some ?r" by simp
        ultimately show False using os_malloc_rest_sound [OF _ idem] by blast
      qed
    qed
  next
    case False
    with a nz have 1: "os_malloc_rest bm ?sa T k s = Some ?r"
      by (auto simp add: os_malloc_aux_def Let_def split: if_splits)
    have "mem_begin s = 0 \<or> \<not> ?sa < T - SIZEOF_STRUCT_BLOCK_META bm"
    proof (cases "mem_begin s = 0")
      case True
      then show ?thesis by simp
    next
      case nb: False
      with False have "\<not> ?sa < T" by simp
      then have "\<not> unat ?sa + unat (SIZEOF_STRUCT_BLOCK_META bm) < unat T"
        by (simp add: word_less_nat_alt)
      then show ?thesis using less_sub [OF assms] by simp
    qed
    then show False using os_malloc_rest_sound [OF 1 idem] by blast
  qed
qed

text \<open>
  A request of 8 bytes when the only block is in use: the search finds nothing, a block is
  created at the break and linked behind the tail.
\<close>

theorem os_malloc_aux_tail_non_null_witness:
  "unat (SIZEOF_STRUCT_BLOCK_META 32) \<le> unat MMAP_THRESHOLD \<and>
   os_malloc_aux 32 8 MMAP_THRESHOLD kern1 ar_prealloc \<noteq> Some (Inl (NullDeref ''mem_end'')) \<and>
   os_malloc_aux 32 8 MMAP_THRESHOLD kern1 ar_prealloc = Some (Inr (135200, ar_appended))"
proof -
  have "unat (SIZEOF_STRUCT_BLOCK_META 32) \<le> unat MMAP_THRESHOLD"
    by (simp add: SIZEOF_STRUCT_BLOCK_META_def ALIGN8_def MMAP_THRESHOLD_def)
  with os_malloc_aux_tail_non_null
    [where bm = 32 and T = MMAP_THRESHOLD and n = 8 and k = kern1 and s = ar_prealloc]
    run_append
  show ?thesis by simp
qed

end
